theory Spec2Isabelle
  imports Main
begin

section \<open>JavaScript values\<close>

text \<open>
  A JavaScript string is a sequence of UTF-16 code units, and \<open>length\<close>, \<open>substring\<close>,
  \<open>lastIndexOf\<close> and \<open>split\<close> count code units. The model keeps a string as the list
  of its code units (natural numbers below 65536; no arithmetic is done on them).
  \<open>js\<close> turns an ASCII literal into such a list.
\<close>

type_synonym jsstring = "nat list"

definition js :: "string \<Rightarrow> jsstring" where
  "js s = map of_char s"

text \<open>A thrown JavaScript exception, with the place that threw it.\<close>

datatype error = Thrown string

section \<open>JavaScript strings\<close>

text \<open>
  White space as \<open>String.prototype.trim\<close> and the class \<open>\s\<close> of regular expressions
  read it: tab, line feed, vertical tab, form feed, carriage return, space, no-break
  space, U+1680, U+2000 to U+200A, the line and paragraph separators, U+202F, U+205F,
  U+3000 and U+FEFF.
\<close>

definition is_space :: "nat \<Rightarrow> bool" where
  "is_space c = (c \<in> {9, 10, 11, 12, 13, 32, 160, 5760, 8232, 8233, 8239, 8287, 12288, 65279}
     \<or> (8192 \<le> c \<and> c \<le> 8202))"

definition trim :: "jsstring \<Rightarrow> jsstring" where
  "trim s = rev (dropWhile is_space (rev (dropWhile is_space s)))"

text \<open>
  \<open>s.substring(start, end)\<close>: both indices are clamped to the length and swapped
  when \<open>start > end\<close>; \<open>s.substring(start)\<close> runs to the end of the string.
\<close>

definition substring :: "jsstring \<Rightarrow> nat \<Rightarrow> nat \<Rightarrow> jsstring" where
  "substring s start end' =
     (let a = min start (length s); b = min end' (length s)
      in take (max a b - min a b) (drop (min a b) s))"

definition substring_from :: "jsstring \<Rightarrow> nat \<Rightarrow> jsstring" where
  "substring_from s start = drop start s"

text \<open>\<open>s.lastIndexOf(w)\<close>: the last index at which \<open>w\<close> occurs in \<open>s\<close>, or -1.\<close>

definition lastIndexOf :: "jsstring \<Rightarrow> jsstring \<Rightarrow> int" where
  "lastIndexOf s w =
     (case filter (\<lambda>i. take (length w) (drop i s) = w) (rev [0 ..< Suc (length s) - length w]) of
        [] \<Rightarrow> - 1
      | i # _ \<Rightarrow> int i)"

text \<open>\<open>s.split(sep)\<close> for a separator of one code unit; the empty string gives \<open>['']\<close>.\<close>

fun split_str :: "nat \<Rightarrow> jsstring \<Rightarrow> jsstring list" where
  "split_str sep [] = [[]]"
| "split_str sep (c # cs) =
     (if c = sep then [] # split_str sep cs
      else (case split_str sep cs of [] \<Rightarrow> [[c]] | part # parts \<Rightarrow> (c # part) # parts))"

text \<open>\<open>parts.join(sep)\<close>.\<close>

fun join_str :: "jsstring \<Rightarrow> jsstring list \<Rightarrow> jsstring" where
  "join_str sep [] = []"
| "join_str sep [part] = part"
| "join_str sep (part # next_part # parts) = part @ sep @ join_str sep (next_part # parts)"

text \<open>
  A non-negative integer below \<open>10^21\<close> in a template literal: its decimal digits.
\<close>

fun decimal :: "nat \<Rightarrow> jsstring" where
  "decimal n = (if n < 10 then [48 + n] else decimal (n div 10) @ [48 + n mod 10])"

text \<open>
  \<open>s.replace(/[<>:"/\\|?*]/g, '_')\<close>: each of the nine characters that are not
  allowed in a file name becomes an underscore.
\<close>

definition replace_illegal :: "jsstring \<Rightarrow> jsstring" where
  "replace_illegal s =
     map (\<lambda>c. if c \<in> {60, 62, 58, 34, 47, 92, 124, 63, 42} then 95 else c) s"

text \<open>\<open>s.endsWith(w)\<close>.\<close>

definition endsWith :: "jsstring \<Rightarrow> jsstring \<Rightarrow> bool" where
  "endsWith s w = (length w \<le> length s \<and> drop (length s - length w) s = w)"

text \<open>\<open>s.startsWith(prefix)\<close>.\<close>

definition startsWith :: "jsstring \<Rightarrow> jsstring \<Rightarrow> bool" where
  "startsWith s prefix = (take (length prefix) s = prefix)"

text \<open>
  \<open>s.replace(/\n\s*\n\s*\n/g, '\n\n')\<close>. A match starts at a line feed whose run of
  white space holds at least three line feeds; the greedy \<open>\s*\<close> make it end after the
  last line feed of that run; the search goes on behind the match.
\<close>

fun collapse_blank_lines :: "jsstring \<Rightarrow> jsstring" where
  "collapse_blank_lines [] = []"
| "collapse_blank_lines (c # cs) =
     (let run = takeWhile is_space (c # cs) in
      if c = 10 \<and> 3 \<le> length (filter (\<lambda>x. x = 10) run)
      then [10, 10]
           @ collapse_blank_lines (drop (length (dropWhile (\<lambda>x. x \<noteq> 10) (rev run)) - 1) cs)
      else c # collapse_blank_lines cs)"

section \<open>Programs with state and exceptions\<close>

text \<open>
  Apps Script code mutates the spreadsheet and may throw at every service call. A
  program over a state \<open>'s\<close> returns either the thrown error or its value, together
  with the state it leaves behind: whatever was written before a throw stays written.
\<close>

type_synonym ('s, 'a) prog = "'s \<Rightarrow> (error + 'a) \<times> 's"

definition ret :: "'a \<Rightarrow> ('s, 'a) prog" where
  "ret x = (\<lambda>s. (Inr x, s))"

definition throw :: "error \<Rightarrow> ('s, 'a) prog" where
  "throw e = (\<lambda>s. (Inl e, s))"

definition seq :: "('s, 'a) prog \<Rightarrow> ('a \<Rightarrow> ('s, 'b) prog) \<Rightarrow> ('s, 'b) prog" where
  "seq m f = (\<lambda>s. case m s of (Inl e, s') \<Rightarrow> (Inl e, s') | (Inr x, s') \<Rightarrow> f x s')"

definition try_catch :: "('s, 'a) prog \<Rightarrow> (error \<Rightarrow> ('s, 'a) prog) \<Rightarrow> ('s, 'a) prog" where
  "try_catch m h = (\<lambda>s. case m s of (Inl e, s') \<Rightarrow> h e s' | (Inr x, s') \<Rightarrow> (Inr x, s'))"

section \<open>Mail messages\<close>

text \<open>
  A GmailMessage is read through getters, each of which is a service call that may
  throw. \<open>msg_faulty\<close> says which getters of this message throw.
\<close>

datatype message_api =
  IsInTrash | GetId | GetSubject | GetFrom | GetDate | GetPlainBody | GetAttachments

record attachment =
  att_name :: jsstring
  att_size :: nat

record message =
  msg_id :: jsstring
  msg_subject :: jsstring
  msg_from :: jsstring
  msg_date :: nat
  msg_body :: jsstring
  msg_attachments :: "attachment list"
  msg_inTrash :: bool
  msg_faulty :: "message_api \<Rightarrow> bool"

definition msg_get :: "message \<Rightarrow> message_api \<Rightarrow> 'a \<Rightarrow> ('s, 'a) prog" where
  "msg_get m a v = (if msg_faulty m a then throw (Thrown ''GmailMessage'') else ret v)"

section \<open>The tracking spreadsheet\<close>

text \<open>
  \<open>SPREADSHEET_CONFIG\<close>: the sheet keeps the last 10000 messages and deletes 1000 rows
  at once when cleaning up.
\<close>

definition MAX_ROWS :: nat where
  "MAX_ROWS = 10000"

definition CLEANUP_BATCH_SIZE :: nat where
  "CLEANUP_BATCH_SIZE = 1000"

text \<open>
  One row of the sheet ProcessedMessages, as \<open>appendRow\<close> writes it:
  message id, subject, sender, processed date, timestamp.
\<close>

record row =
  row_id :: jsstring
  row_subject :: jsstring
  row_sender :: jsstring
  row_date :: nat
  row_timestamp :: nat

datatype sheet_api =
  OpenSpreadsheet | GetSheetByName | GetLastRow | GetRange | AppendRow | DeleteRows

text \<open>The mutating calls the sheet has received, oldest first (sheet row numbers).\<close>

datatype mutation = Appended row | Deleted nat nat

text \<open>
  The store is the tracking spreadsheet as \<open>getOrCreateTrackingSpreadsheet\<close> resolves
  it. \<open>sheet\<close> holds the data rows below the header row (row 1), oldest first, or
  \<open>None\<close> when \<open>getSheetByName\<close> returns null. \<open>faulty\<close> says which service calls
  throw. A cell reads back as the string that was written into it.
\<close>

record store =
  sheet :: "row list option"
  faulty :: "sheet_api \<Rightarrow> bool"
  mutations :: "mutation list"

definition data_rows :: "store \<Rightarrow> row list" where
  "data_rows st = (case sheet st of None \<Rightarrow> [] | Some rs \<Rightarrow> rs)"

definition api_call :: "sheet_api \<Rightarrow> string \<Rightarrow> (store, unit) prog" where
  "api_call a name = (\<lambda>st. if faulty st a then (Inl (Thrown name), st) else (Inr (), st))"

definition getOrCreateTrackingSpreadsheet :: "(store, unit) prog" where
  "getOrCreateTrackingSpreadsheet = api_call OpenSpreadsheet ''getOrCreateTrackingSpreadsheet''"

text \<open>\<open>getSheetByName\<close>: whether the sheet exists (JavaScript: non-null).\<close>

definition getSheetByName :: "(store, bool) prog" where
  "getSheetByName =
     seq (api_call GetSheetByName ''getSheetByName'') (\<lambda>_ st. (Inr (sheet st \<noteq> None), st))"

text \<open>\<open>getLastRow\<close>: the header is row 1, the data rows follow it.\<close>

definition getLastRow :: "(store, nat) prog" where
  "getLastRow =
     seq (api_call GetLastRow ''getLastRow'') (\<lambda>_ st. (Inr (1 + length (data_rows st)), st))"

text \<open>
  \<open>sheet.getRange(start, 1, numRows, 1).getValues().flat()\<close> for \<open>start \<ge> 2\<close>: the
  first column of \<open>numRows\<close> rows from sheet row \<open>start\<close>; a row below the last one
  reads as the empty string. \<open>getRange\<close> throws on an empty range.
\<close>

definition getRangeColumn1 :: "nat \<Rightarrow> nat \<Rightarrow> (store, jsstring list) prog" where
  "getRangeColumn1 start numRows =
     seq (api_call GetRange ''getRange'') (\<lambda>_ st.
       if start < 2 \<or> numRows < 1 then (Inl (Thrown ''getRange''), st)
       else (Inr (map (\<lambda>i. if i < length (data_rows st) then row_id (data_rows st ! i) else [])
                    [start - 2 ..< start - 2 + numRows]), st))"

definition appendRow :: "row \<Rightarrow> (store, unit) prog" where
  "appendRow r =
     seq (api_call AppendRow ''appendRow'') (\<lambda>_ st.
       (Inr (), st\<lparr>sheet := Some (data_rows st @ [r]),
                    mutations := mutations st @ [Appended r]\<rparr>))"

text \<open>
  \<open>sheet.deleteRows(start, howMany)\<close> for \<open>start \<ge> 2\<close>: removes \<open>howMany\<close> rows from
  sheet row \<open>start\<close>; it throws when the rows are out of bounds.
\<close>

definition deleteRows :: "nat \<Rightarrow> nat \<Rightarrow> (store, unit) prog" where
  "deleteRows start howMany =
     seq (api_call DeleteRows ''deleteRows'') (\<lambda>_ st.
       if start < 2 \<or> howMany < 1 \<or> length (data_rows st) < start - 2 + howMany
       then (Inl (Thrown ''deleteRows''), st)
       else (Inr (), st\<lparr>sheet := Some (take (start - 2) (data_rows st)
                                        @ drop (start - 2 + howMany) (data_rows st)),
                        mutations := mutations st @ [Deleted start howMany]\<rparr>))"

subsection \<open>isMessageProcessedInSheet\<close>

text \<open>The body of the function's \<open>try\<close> block.\<close>

definition isMessageProcessedInSheet_try :: "jsstring \<Rightarrow> (store, bool) prog" where
  "isMessageProcessedInSheet_try messageId =
     seq getOrCreateTrackingSpreadsheet (\<lambda>_.
     seq getSheetByName (\<lambda>found.
       if \<not> found then ret False
       else seq getLastRow (\<lambda>lastRow.
         if lastRow \<le> 1 then ret False
         else seq (getRangeColumn1 2 (lastRow - 1)) (\<lambda>messageIds.
           ret (messageId \<in> set messageIds)))))"

text \<open>The \<open>catch\<close> block: assume not processed, to avoid skipping messages.\<close>

definition isMessageProcessedInSheet :: "jsstring \<Rightarrow> (store, bool) prog" where
  "isMessageProcessedInSheet messageId =
     try_catch (isMessageProcessedInSheet_try messageId) (\<lambda>e. ret False)"

subsection \<open>cleanupOldEntriesInSheet\<close>

text \<open>
  \<open>rowsToDelete = lastRow - MAX_ROWS - 1\<close> is a JavaScript number and may be negative;
  the model computes it over the integers.
\<close>

definition cleanupOldEntriesInSheet :: "(store, unit) prog" where
  "cleanupOldEntriesInSheet =
     try_catch
       (seq getOrCreateTrackingSpreadsheet (\<lambda>_.
        seq getSheetByName (\<lambda>found.
          if \<not> found then ret ()
          else seq getLastRow (\<lambda>lastRow.
            let rowsToDelete = int lastRow - int MAX_ROWS - 1 in
            if rowsToDelete \<le> 0 then ret ()
            else deleteRows 2 (nat (min rowsToDelete (int CLEANUP_BATCH_SIZE)))))))
       (\<lambda>e. ret ())"

subsection \<open>markMessageProcessedInSheet\<close>

text \<open>\<open>now\<close> is the value of \<open>new Date().getTime()\<close> at the call.\<close>

definition markMessageProcessedInSheet :: "message \<Rightarrow> nat \<Rightarrow> (store, unit) prog" where
  "markMessageProcessedInSheet m now =
     try_catch
       (seq (msg_get m GetId (msg_id m)) (\<lambda>messageId.
        seq (msg_get m GetSubject (msg_subject m)) (\<lambda>subject.
        seq (msg_get m GetFrom (msg_from m)) (\<lambda>sender.
        seq getOrCreateTrackingSpreadsheet (\<lambda>_.
        seq getSheetByName (\<lambda>found.
          if \<not> found then throw (Thrown ''ProcessedMessages sheet not found'')
          else seq (appendRow \<lparr>row_id = messageId, row_subject = subject, row_sender = sender,
                                row_date = now, row_timestamp = now\<rparr>) (\<lambda>_.
               seq getLastRow (\<lambda>rowCount.
                 if rowCount > MAX_ROWS + CLEANUP_BATCH_SIZE then cleanupOldEntriesInSheet
                 else ret ()))))))))
       (\<lambda>e. ret ())"

subsection \<open>isMessageAlreadyProcessed\<close>

definition isMessageAlreadyProcessed :: "message \<Rightarrow> (store, bool) prog" where
  "isMessageAlreadyProcessed m =
     try_catch
       (seq (msg_get m GetId (msg_id m)) (\<lambda>messageId.
        seq (isMessageProcessedInSheet messageId) (\<lambda>isProcessed.
          if isProcessed then ret True else ret False)))
       (\<lambda>e. ret False)"

text \<open>A store whose service calls all succeed and whose sheet exists.\<close>

definition healthy :: "store \<Rightarrow> bool" where
  "healthy st = (sheet st \<noteq> None \<and> \<not> faulty st OpenSpreadsheet \<and> \<not> faulty st GetSheetByName
     \<and> \<not> faulty st GetLastRow \<and> \<not> faulty st GetRange \<and> \<not> faulty st AppendRow
     \<and> \<not> faulty st DeleteRows)"

definition readable :: "message \<Rightarrow> bool" where
  "readable m = (\<not> msg_faulty m IsInTrash \<and> \<not> msg_faulty m GetId \<and> \<not> msg_faulty m GetSubject
     \<and> \<not> msg_faulty m GetFrom \<and> \<not> msg_faulty m GetDate \<and> \<not> msg_faulty m GetPlainBody
     \<and> \<not> msg_faulty m GetAttachments)"

text \<open>The row that \<open>markMessageProcessedInSheet\<close> appends for a message.\<close>

definition ledger_entry :: "message \<Rightarrow> nat \<Rightarrow> row" where
  "ledger_entry m now = \<lparr>row_id = msg_id m, row_subject = msg_subject m,
     row_sender = msg_from m, row_date = now, row_timestamp = now\<rparr>"

text \<open>The getters that \<open>markMessageProcessedInSheet\<close> calls do not throw.\<close>

definition recordable :: "message \<Rightarrow> bool" where
  "recordable m = (\<not> msg_faulty m GetId \<and> \<not> msg_faulty m GetSubject \<and> \<not> msg_faulty m GetFrom)"

text \<open>
  The sheet mutations of one record call for a message: the append of the message's
  entry comes first; the only mutation that may follow it is one deletion of
  \<open>CLEANUP_BATCH_SIZE\<close> rows from the oldest data row (sheet row 2).
\<close>

definition append_then_evict :: "message \<Rightarrow> nat \<Rightarrow> mutation list \<Rightarrow> bool" where
  "append_then_evict m now log =
     (log = [Appended (ledger_entry m now)]
      \<or> log = [Appended (ledger_entry m now), Deleted 2 CLEANUP_BATCH_SIZE])"

text \<open>A sequence of record calls, one after the other.\<close>

fun record_calls :: "message list \<Rightarrow> nat \<Rightarrow> store \<Rightarrow> store" where
  "record_calls [] now st = st"
| "record_calls (m # ms) now st = record_calls ms now (snd (markMessageProcessedInSheet m now st))"

text \<open>
  The mutations that each call of such a sequence adds to the log of the sheet, one
  list per call.
\<close>

fun call_logs :: "message list \<Rightarrow> nat \<Rightarrow> store \<Rightarrow> mutation list list" where
  "call_logs [] now st = []"
| "call_logs (m # ms) now st =
     drop (length (mutations st)) (mutations (snd (markMessageProcessedInSheet m now st)))
       # call_logs ms now (snd (markMessageProcessedInSheet m now st))"

section \<open>Subject patterns\<close>

text \<open>
  An entry of \<open>CONFIG.SUBJECT_PATTERNS.PATTERNS\<close>: \<open>pat_source\<close> is what
  \<open>pattern.toString()\<close> returns, \<open>pat_test\<close> is \<open>pattern.test(subject)\<close>, which
  returns a boolean or throws (an entry that is not a regular expression). The
  patterns of the source carry no \<open>g\<close> or \<open>y\<close> flag, so a test leaves no state behind.
\<close>

record pattern =
  pat_source :: jsstring
  pat_test :: "jsstring \<Rightarrow> error + bool"

text \<open>
  \<open>CONFIG.SUBJECT_PATTERNS\<close>; \<open>None\<close> is a property that is not set
  (\<open>undefined\<close>). An element of the array \<open>PATTERNS\<close> is an entry as above or, as
  \<open>None\<close>, \<open>null\<close> or \<open>undefined\<close> (a hole of the array literal): such an element
  has neither \<open>toString\<close> nor \<open>test\<close>.
\<close>

record subject_patterns =
  ENABLE_MULTIPLE_PATTERNS :: bool
  MATCH_MODE :: "jsstring option"
  PATTERNS :: "pattern option list option"

text \<open>
  One element of \<open>allResults\<close>. The field \<open>matchDetails\<close> (the array of
  \<open>subject.match(pattern)\<close>) is only logged and is left out.
\<close>

record pattern_result =
  pr_pattern :: jsstring
  pr_isMatch :: bool
  pr_error :: "error option"

text \<open>The \<open>summary\<close> object of the final result.\<close>

record match_summary =
  totalPatterns :: nat
  matchedCount :: nat
  finalResult :: bool

text \<open>
  The object that the pattern checks return; a property that the returned object does
  not have is \<open>None\<close>, and so is \<open>matchedPattern: null\<close>.
\<close>

record match_result =
  isMatch :: bool
  matchedPattern :: "jsstring option"
  checkedPatterns :: "jsstring list"
  allResults :: "pattern_result list"
  matchMode :: "jsstring option"
  summary :: "match_summary option"
  match_error :: "error option"

text \<open>
  The tail of \<open>checkMultiplePatterns\<close> after the loop. \<open>results.find(...)?.pattern\<close>
  is \<open>undefined\<close> when no result matched.
\<close>

definition final_result ::
  "jsstring \<Rightarrow> nat \<Rightarrow> pattern_result list \<Rightarrow> jsstring list \<Rightarrow> match_result" where
  "final_result mode len results checked =
     (let hasMatches = list_ex pr_isMatch results;
          allMatch = list_all pr_isMatch results;
          finalMatch = (if mode = js ''any'' then hasMatches else allMatch)
      in \<lparr>isMatch = finalMatch,
          matchedPattern = (if finalMatch then map_option pr_pattern (find pr_isMatch results)
                            else None),
          checkedPatterns = checked,
          allResults = results,
          matchMode = Some mode,
          summary = Some \<lparr>totalPatterns = len,
                             matchedCount = length (filter pr_isMatch results),
                             finalResult = finalMatch\<rparr>,
          match_error = None\<rparr>)"

text \<open>
  The \<open>for\<close> loop of \<open>checkMultiplePatterns\<close> over the patterns still to test, with
  the arrays \<open>results\<close> and \<open>checkedPatterns\<close> built so far. \<open>pattern.toString()\<close>
  stands before the \<open>try\<close> block of the loop body: on a \<open>null\<close> or \<open>undefined\<close>
  element it throws out of the loop and out of the function. A throw of
  \<open>pattern.test\<close> is caught in the loop body.
\<close>

fun check_loop ::
  "jsstring \<Rightarrow> jsstring \<Rightarrow> nat \<Rightarrow> pattern option list \<Rightarrow> pattern_result list
     \<Rightarrow> jsstring list \<Rightarrow> error + match_result" where
  "check_loop subject mode len [] results checked =
     Inr (final_result mode len results checked)"
| "check_loop subject mode len (None # ps) results checked =
     Inl (Thrown ''pattern.toString'')"
| "check_loop subject mode len (Some p # ps) results checked =
     (let patternString = pat_source p;
          checked' = checked @ [patternString]
      in case pat_test p subject of
           Inr matched \<Rightarrow>
             (let results' = results @ [\<lparr>pr_pattern = patternString, pr_isMatch = matched,
                                            pr_error = None\<rparr>]
              in if mode = js ''any'' \<and> matched
                 then Inr \<lparr>isMatch = True, matchedPattern = Some patternString,
                           checkedPatterns = checked', allResults = results',
                           matchMode = Some mode, summary = None, match_error = None\<rparr>
                 else check_loop subject mode len ps results' checked')
         | Inl e \<Rightarrow>
             check_loop subject mode len ps
               (results @ [\<lparr>pr_pattern = patternString, pr_isMatch = False,
                               pr_error = Some e\<rparr>])
               checked')"

text \<open>
  \<open>x || d\<close> on an optional string: \<open>undefined\<close> and the empty string are falsy.
\<close>

definition or_default :: "jsstring option \<Rightarrow> jsstring \<Rightarrow> jsstring" where
  "or_default x d = (case x of None \<Rightarrow> d | Some v \<Rightarrow> if v = [] then d else v)"

text \<open>The function has no \<open>try\<close> block of its own: it returns its result or throws.\<close>

definition checkMultiplePatterns :: "subject_patterns \<Rightarrow> jsstring \<Rightarrow> error + match_result" where
  "checkMultiplePatterns sp subject =
     (let patterns = (case PATTERNS sp of None \<Rightarrow> [] | Some ps \<Rightarrow> ps);
          mode = or_default (MATCH_MODE sp) (js ''any'')
      in check_loop subject mode (length patterns) patterns [] [])"

text \<open>The pattern \<open>p\<close> matches the subject: its test returns \<open>true\<close>.\<close>

definition matches :: "jsstring \<Rightarrow> pattern \<Rightarrow> bool" where
  "matches subject p = (pat_test p subject = Inr True)"

section \<open>Configuration\<close>

text \<open>
  The properties of \<open>CONFIG\<close> that the modelled functions read. In the source
  \<open>BODY_PREVIEW_LENGTH\<close> is 20000, \<open>SHOW_FULL_EMAIL_BODY\<close> is true and the match
  mode is \<open>'any'\<close>.
\<close>

record config =
  SUBJECT_PATTERNS :: "subject_patterns option"
  SUBJECT_PATTERN :: pattern
  BODY_PREVIEW_LENGTH :: nat
  SHOW_FULL_EMAIL_BODY :: bool

subsection \<open>checkSubjectPattern\<close>

text \<open>
  The legacy branch of the \<open>try\<close> block: the test of the single pattern
  \<open>CONFIG.SUBJECT_PATTERN\<close>, which may throw. \<open>matchDetails\<close> is left out, as above.
\<close>

definition legacy_check :: "config \<Rightarrow> jsstring \<Rightarrow> error + match_result" where
  "legacy_check cfg subject =
     (case pat_test (SUBJECT_PATTERN cfg) subject of
        Inl e \<Rightarrow> Inl e
      | Inr matched \<Rightarrow>
          Inr \<lparr>isMatch = matched,
               matchedPattern = (if matched then Some (pat_source (SUBJECT_PATTERN cfg)) else None),
               checkedPatterns = [pat_source (SUBJECT_PATTERN cfg)],
               allResults = [], matchMode = None, summary = None, match_error = None\<rparr>)"

text \<open>The \<open>try\<close> block of \<open>checkSubjectPattern\<close>.\<close>

definition checkSubjectPattern_try :: "config \<Rightarrow> jsstring \<Rightarrow> error + match_result" where
  "checkSubjectPattern_try cfg subject =
     (case SUBJECT_PATTERNS cfg of
        Some sp \<Rightarrow>
          if ENABLE_MULTIPLE_PATTERNS sp then checkMultiplePatterns sp subject
          else legacy_check cfg subject
      | None \<Rightarrow> legacy_check cfg subject)"

text \<open>
  The \<open>catch\<close> block returns a non-match that carries the error and an empty list of
  checked patterns.
\<close>

definition checkSubjectPattern :: "config \<Rightarrow> jsstring \<Rightarrow> match_result" where
  "checkSubjectPattern cfg subject =
     (case checkSubjectPattern_try cfg subject of
        Inr result \<Rightarrow> result
      | Inl e \<Rightarrow>
          \<lparr>isMatch = False, matchedPattern = None, checkedPatterns = [],
           allResults = [], matchMode = None, summary = None, match_error = Some e\<rparr>)"

section \<open>The email body\<close>

subsection \<open>formatEmailBody\<close>

text \<open>
  The markers of the source, as code units: \<open>NO_BODY\<close> is the text shown for an empty
  body, \<open>SIMPLIFIED_MARK\<close> ends the short preview and \<open>OMITTED_MARK\<close>
  (the rest is omitted) ends a truncated body.
\<close>

definition NO_BODY :: jsstring where
  "NO_BODY = [95, 26412, 25991, 12394, 12375, 95]"

definition SIMPLIFIED_MARK :: jsstring where
  "SIMPLIFIED_MARK = [95, 91, 31777, 30053, 34920, 31034, 12514, 12540, 12489, 93, 95]"

definition OMITTED_MARK :: jsstring where
  "OMITTED_MARK = [95, 91, 20197, 19979, 30053, 93, 95]"

text \<open>
  \<open>!body\<close> holds for a missing and for an empty body. The full stop of Japanese is
  U+3002 (12290). \<open>lastSentenceEnd > CONFIG.BODY_PREVIEW_LENGTH * 0.8\<close> is written over
  the integers (exact for the 20000 of the source). No call of the \<open>try\<close> block throws
  on a string, so the \<open>catch\<close> block is never entered.
\<close>

definition formatEmailBody :: "config \<Rightarrow> jsstring \<Rightarrow> jsstring" where
  "formatEmailBody cfg body =
     (if body = [] \<or> length (trim body) = 0 then NO_BODY
      else
        (let cleanBody = trim (collapse_blank_lines body) in
         if \<not> SHOW_FULL_EMAIL_BODY cfg \<and> length cleanBody > 500 then
           (let shortPreview = substring cleanBody 0 500;
                lastBreak = max (max (lastIndexOf shortPreview [12290])
                                     (lastIndexOf shortPreview (js ''.'')))
                                (lastIndexOf shortPreview [10]);
                cutPoint = (if lastBreak > 400 then nat (lastBreak + 1) else 500)
            in substring cleanBody 0 cutPoint @ js ''...'' @ [10, 10] @ SIMPLIFIED_MARK)
         else if length cleanBody \<le> BODY_PREVIEW_LENGTH cfg then cleanBody
         else
           (let truncated = substring cleanBody 0 (BODY_PREVIEW_LENGTH cfg);
                lastSentenceEnd = max (max (lastIndexOf truncated [12290])
                                           (lastIndexOf truncated (js ''.'')))
                                      (lastIndexOf truncated [10, 10])
            in if 5 * lastSentenceEnd > 4 * int (BODY_PREVIEW_LENGTH cfg)
               then substring truncated 0 (nat (lastSentenceEnd + 1)) @ [10, 10] @ OMITTED_MARK
               else truncated @ js ''...'' @ [10, 10] @ OMITTED_MARK)))"

section \<open>Slack notifications\<close>

text \<open>
  One message posted to the webhook: its icon, its \<open>text\<close>, and the title and the
  text of its attachment block (for the main notification: the field that shows the
  body). The other fields of the payload are left out.
\<close>

record slack_post =
  icon_emoji :: string
  post_text :: jsstring
  post_title :: jsstring
  post_body :: jsstring

text \<open>
  The webhook. \<open>webhook_url\<close> is the script property \<open>SLACK_WEBHOOK_URL\<close>, \<open>None\<close>
  when it is not set.
  \<open>respond n\<close> is the outcome of request number \<open>n\<close> (from 0): a response code, or a
  throw of \<open>UrlFetchApp.fetch\<close>. \<open>requests\<close> are the payloads that were answered, with
  the response codes, oldest first.
\<close>

record slack =
  webhook_url :: "jsstring option"
  respond :: "nat \<Rightarrow> error + nat"
  requests :: "(slack_post \<times> nat) list"

text \<open>
  \<open>getProperty(PROPERTY_KEYS.SLACK_WEBHOOK_URL)\<close>: the property is required, so a value
  that is missing or empty is thrown as an error.
\<close>

definition getWebhookUrl :: "(slack, jsstring) prog" where
  "getWebhookUrl =
     (\<lambda>s. case webhook_url s of
            None \<Rightarrow> (Inl (Thrown ''getProperty''), s)
          | Some url \<Rightarrow> if url = [] then (Inl (Thrown ''getProperty''), s) else (Inr url, s))"

definition fetch :: "slack_post \<Rightarrow> (slack, nat) prog" where
  "fetch payload =
     (\<lambda>s. case respond s (length (requests s)) of
            Inl e \<Rightarrow> (Inl e, s)
          | Inr code \<Rightarrow> (Inr code, s\<lparr>requests := requests s @ [(payload, code)]\<rparr>))"

subsection \<open>sendLongEmailBody\<close>

text \<open>
  The titles of the parts: \<open>LAST_PART\<close> for the last one, and \<open>PART_OPEN\<close>, the part
  number and \<open>PART_CLOSE\<close> for the others. \<open>FULL_BODY_NOTE\<close> follows the reference
  to the mail in the text of the first part.
\<close>

definition LAST_PART :: jsstring where
  "LAST_PART = [65288, 26368, 32066, 12497, 12540, 12488, 65289]"

definition PART_OPEN :: jsstring where
  "PART_OPEN = [65288, 12497, 12540, 12488, 32]"

definition PART_CLOSE :: jsstring where
  "PART_CLOSE = [65289]"

definition FULL_BODY_NOTE :: jsstring where
  "FULL_BODY_NOTE = [12398, 26412, 25991, 20840, 25991, 12391, 12377]"

text \<open>
  The \<open>while (remainingBody.length > 0)\<close> loop. \<open>referenceText\<close> is the reference to
  the mail that the loop builds from the date. A response other than 200 ends the loop
  (\<open>break\<close>); a throw of \<open>fetch\<close> leaves it through the \<open>catch\<close> block of the function.
  \<open>totalSent\<close> is only logged and is left out.
\<close>

function send_parts :: "jsstring \<Rightarrow> jsstring \<Rightarrow> nat \<Rightarrow> (slack, unit) prog" where
  "send_parts referenceText remainingBody partNumber s =
     (if length remainingBody > 0 then
        (let chunk = substring remainingBody 0 (min 3500 (length remainingBody));
             remainingBody' = substring_from remainingBody (length chunk);
             isLastPart = (length remainingBody' = 0);
             partText = (if isLastPart then LAST_PART
                         else PART_OPEN @ decimal partNumber @ PART_CLOSE);
             message = \<lparr>icon_emoji = '':speech_balloon:'',
                        post_text = (if partNumber = 1
                                     then [8627, 32] @ referenceText @ FULL_BODY_NOTE else []),
                        post_title = partText,
                        post_body = chunk\<rparr>
         in case fetch message s of
              (Inl e, s') \<Rightarrow> (Inl e, s')
            | (Inr code, s') \<Rightarrow>
                if code \<noteq> 200 then (Inr (), s')
                else send_parts referenceText remainingBody' (partNumber + 1) s')
      else (Inr (), s))"
  by pat_completeness auto
termination
  by (relation "measure (\<lambda>(referenceText, remainingBody, partNumber, s). length remainingBody)")
     (auto simp add: substring_def substring_from_def)

definition sendLongEmailBody :: "jsstring \<Rightarrow> jsstring \<Rightarrow> (slack, unit) prog" where
  "sendLongEmailBody referenceText fullBody =
     try_catch (seq getWebhookUrl (\<lambda>_. send_parts referenceText fullBody 1)) (\<lambda>e. ret ())"

subsection \<open>buildSlackMessage and sendSlackNotification\<close>

text \<open>\<open>MAIL_TITLE\<close> opens the title of the main notification; \<open>CONTINUED_MARK\<close> says
  that the full body follows in further messages.\<close>

definition MAIL_TITLE :: jsstring where
  "MAIL_TITLE = [55357, 56551, 32, 26032, 30528, 12513, 12540, 12523, 58, 32]"

definition CONTINUED_MARK :: jsstring where
  "CONTINUED_MARK = [95, 91, 26412, 25991, 12398, 20840, 25991, 12399, 32154, 12365, 12398, 12513,
     12483, 12475, 12540, 12472, 12391, 34920, 31034, 12373, 12428, 12414, 12377, 93, 95]"

text \<open>The title and the body field of \<open>buildSlackMessage\<close>.\<close>

definition buildSlackMessage :: "jsstring \<Rightarrow> jsstring \<Rightarrow> slack_post" where
  "buildSlackMessage subject body =
     (let bodyPreview = (if body = [] then NO_BODY else body);
          isLongBody = (length bodyPreview > 1000);
          bodyPreview' = (if isLongBody then substring bodyPreview 0 500 @ [10, 10] @ CONTINUED_MARK
                          else bodyPreview)
      in \<lparr>icon_emoji = '':email:'', post_text = [], post_title = MAIL_TITLE @ subject,
          post_body = bodyPreview'\<rparr>)"

text \<open>
  \<open>sendSlackNotification\<close> on the webhook path (the script property \<open>USE_SLACK_API\<close>
  is not \<open>'true'\<close>): the main notification, then the parts of a long body. A response
  other than 200 to the main notification is thrown, and the \<open>catch\<close> block rethrows.
  The Drive folder follow-up that comes last is left out.
\<close>

definition sendSlackNotification :: "jsstring \<Rightarrow> jsstring \<Rightarrow> jsstring \<Rightarrow> (slack, unit) prog" where
  "sendSlackNotification subject referenceText body =
     seq getWebhookUrl (\<lambda>_.
     seq (fetch (buildSlackMessage subject body)) (\<lambda>responseCode.
       if responseCode = 200 then
         (if body \<noteq> [] \<and> length body > 1000 then sendLongEmailBody referenceText body
          else ret ())
       else throw (Thrown ''Slack API error'')))"

text \<open>
  The notification step of \<open>processMessage\<close>: the body of the message goes through
  \<open>formatEmailBody\<close> first, and an exception of the notification is caught and logged.
\<close>

definition notify :: "config \<Rightarrow> jsstring \<Rightarrow> jsstring \<Rightarrow> jsstring \<Rightarrow> (slack, unit) prog" where
  "notify cfg subject referenceText body =
     try_catch (sendSlackNotification subject referenceText (formatEmailBody cfg body))
       (\<lambda>e. ret ())"

text \<open>The bodies of the continuation units that Slack accepted, in the order sent.\<close>

definition continuation_bodies :: "slack \<Rightarrow> jsstring list" where
  "continuation_bodies s =
     map (\<lambda>(payload, code). post_body payload)
       (filter (\<lambda>(payload, code). icon_emoji payload = '':speech_balloon:'' \<and> code = 200)
          (requests s))"

text \<open>The webhook URL is set and not empty.\<close>

definition configured :: "slack \<Rightarrow> bool" where
  "configured s = (case webhook_url s of None \<Rightarrow> False | Some url \<Rightarrow> url \<noteq> [])"

text \<open>A webhook that is configured and answers every request with 200.\<close>

definition accepting :: "slack \<Rightarrow> bool" where
  "accepting s = (configured s \<and> respond s = (\<lambda>n. Inr 200))"

section \<open>Attachments in Google Drive\<close>

text \<open>
  The clock as the file naming reads it: \<open>formatted_time\<close> is the result of
  \<open>Utilities.formatDate(new Date(), 'JST', 'HHmmss')\<close>, a service call that may throw,
  and \<open>millis\<close> is \<open>new Date().getTime()\<close>.
\<close>

record clock =
  formatted_time :: "error + jsstring"
  millis :: nat

subsection \<open>generateSimpleFilename\<close>

text \<open>
  \<open>originalName && originalName.trim()\<close> is falsy for a missing or empty name and for
  a name of white space only. \<open>nameParts.pop()\<close> removes the last part before
  \<open>nameParts.join('.')\<close> builds the base name. The \<open>catch\<close> block is reached when the
  time formatting throws.
\<close>

definition generateSimpleFilename :: "clock \<Rightarrow> nat \<Rightarrow> jsstring \<Rightarrow> jsstring" where
  "generateSimpleFilename clk index originalName =
     (case formatted_time clk of
        Inl e \<Rightarrow> js ''attachment_'' @ decimal (index + 1) @ js ''_'' @ decimal (millis clk)
      | Inr timestamp \<Rightarrow>
          if originalName \<noteq> [] \<and> trim originalName \<noteq> [] then
            (let cleanName = trim (replace_illegal originalName) in
             if index > 0 then
               (let nameParts = split_str 46 cleanName;
                    extension = (if length nameParts > 1 then js ''.'' @ last nameParts else []);
                    baseName = join_str (js ''.'')
                                 (if length nameParts > 1 then butlast nameParts else nameParts)
                in baseName @ js ''_'' @ decimal (index + 1) @ extension)
             else cleanName)
          else js ''attachment_'' @ decimal (index + 1) @ js ''_'' @ timestamp)"

subsection \<open>The Drive folder\<close>

text \<open>
  A Drive folder holds files by name (names may repeat), in the order of their
  creation. \<open>lookup_fails\<close> and \<open>create_fails\<close> say for which names
  \<open>getFilesByName\<close> and \<open>createFile\<close> throw.
\<close>

record folder =
  files :: "jsstring list"
  lookup_fails :: "jsstring \<Rightarrow> bool"
  create_fails :: "jsstring \<Rightarrow> bool"

text \<open>\<open>folder.getFilesByName(name).hasNext()\<close>.\<close>

definition hasFileNamed :: "jsstring \<Rightarrow> (folder, bool) prog" where
  "hasFileNamed name =
     (\<lambda>f. if lookup_fails f name then (Inl (Thrown ''getFilesByName''), f)
          else (Inr (name \<in> set (files f)), f))"

definition createFile :: "jsstring \<Rightarrow> (folder, unit) prog" where
  "createFile name =
     (\<lambda>f. if create_fails f name then (Inl (Thrown ''createFile''), f)
          else (Inr (), f\<lparr>files := files f @ [name]\<rparr>))"

subsection \<open>ensureUniqueFilename\<close>

text \<open>
  The \<open>do ... while (counter < 100)\<close> loop, entered with the current \<open>counter\<close>: it
  builds the candidate, leaves the loop when no file has that name, and otherwise
  increments the counter and tests the loop condition. The value is \<open>uniqueName\<close> as
  the loop leaves it.
\<close>

function probe :: "jsstring \<Rightarrow> jsstring \<Rightarrow> nat \<Rightarrow> (folder, jsstring) prog" where
  "probe baseName extension counter f =
     (let uniqueName = baseName @ js ''_'' @ decimal counter @ extension
      in case hasFileNamed uniqueName f of
           (Inl e, f') \<Rightarrow> (Inl e, f')
         | (Inr conflict, f') \<Rightarrow>
             if \<not> conflict then (Inr uniqueName, f')
             else if counter + 1 < 100 then probe baseName extension (counter + 1) f'
             else (Inr uniqueName, f'))"
  by pat_completeness auto
termination
  by (relation "measure (\<lambda>(baseName, extension, counter, f). 100 - counter)") auto

definition ensureUniqueFilename :: "clock \<Rightarrow> jsstring \<Rightarrow> (folder, jsstring) prog" where
  "ensureUniqueFilename clk fileName =
     try_catch
       (seq (hasFileNamed fileName) (\<lambda>conflict.
          if \<not> conflict then ret fileName
          else (let nameParts = split_str 46 fileName;
                    extension = (if length nameParts > 1 then js ''.'' @ last nameParts else []);
                    baseName = join_str (js ''.'')
                                 (if length nameParts > 1 then butlast nameParts else nameParts)
                in probe baseName extension 1)))
       (\<lambda>e. ret (fileName @ js ''_'' @ decimal (millis clk)))"

subsection \<open>saveAttachmentToDrive and the loop of processAttachments\<close>

text \<open>
  The attachment info that the notification reads: the original name, the saved name
  (\<open>null\<close> on failure), the size and the error. The Drive URLs and ids are left out.
\<close>

record attachment_info =
  originalName :: jsstring
  savedName :: "jsstring option"
  info_size :: nat
  info_error :: "error option"

text \<open>The \<open>catch\<close> block of \<open>saveAttachmentToDrive\<close> rethrows.\<close>

definition saveAttachmentToDrive ::
  "clock \<Rightarrow> attachment \<Rightarrow> nat \<Rightarrow> (folder, attachment_info) prog" where
  "saveAttachmentToDrive clk att index =
     (let safeFileName = generateSimpleFilename clk index (att_name att) in
      seq (ensureUniqueFilename clk safeFileName) (\<lambda>finalFileName.
      seq (createFile finalFileName) (\<lambda>_.
        ret \<lparr>originalName = att_name att, savedName = Some finalFileName,
              info_size = att_size att, info_error = None\<rparr>)))"

text \<open>
  \<open>attachments.forEach((attachment, index) => ...)\<close> of \<open>processAttachments\<close>, in the
  folder of the email: a failed attachment is recorded with its error and the loop goes
  on. The list holds the attachments still to save and \<open>index\<close> is the index of its
  first element.
\<close>

fun processAttachments_forEach ::
  "clock \<Rightarrow> attachment list \<Rightarrow> nat \<Rightarrow> (folder, attachment_info list) prog" where
  "processAttachments_forEach clk [] index = ret []"
| "processAttachments_forEach clk (att # atts) index =
     seq (try_catch (saveAttachmentToDrive clk att index)
            (\<lambda>e. ret \<lparr>originalName = att_name att, savedName = None,
                        info_size = att_size att, info_error = Some e\<rparr>)) (\<lambda>info.
     seq (processAttachments_forEach clk atts (index + 1)) (\<lambda>infos.
       ret (info # infos)))"

text \<open>A folder whose calls all succeed.\<close>

definition reliable :: "folder \<Rightarrow> bool" where
  "reliable f = (lookup_fails f = (\<lambda>n. False) \<and> create_fails f = (\<lambda>n. False))"

section \<open>Processing one message\<close>

text \<open>
  Everything a run acts on: the tracking spreadsheet, the Drive folder of the email and
  the Slack webhook. \<open>drive_available\<close>: the base folder is configured and can be
  opened. The model keeps one email folder (the one \<open>createEmailFolder\<close> resolves);
  the naming of that folder is not modelled.
\<close>

record world =
  ledger :: store
  drive :: folder
  drive_available :: bool
  chat :: slack

definition on_ledger :: "(store, 'a) prog \<Rightarrow> (world, 'a) prog" where
  "on_ledger m = (\<lambda>w. case m (ledger w) of (x, st) \<Rightarrow> (x, w\<lparr>ledger := st\<rparr>))"

definition on_drive :: "(folder, 'a) prog \<Rightarrow> (world, 'a) prog" where
  "on_drive m = (\<lambda>w. case m (drive w) of (x, f) \<Rightarrow> (x, w\<lparr>drive := f\<rparr>))"

definition on_chat :: "(slack, 'a) prog \<Rightarrow> (world, 'a) prog" where
  "on_chat m = (\<lambda>w. case m (chat w) of (x, s) \<Rightarrow> (x, w\<lparr>chat := s\<rparr>))"

subsection \<open>processAttachments\<close>

text \<open>
  Opening the base folder may throw; the loop over the attachments does not, and an
  exception of the \<open>try\<close> block is thrown again as a folder access failure.
\<close>

definition processAttachments :: "clock \<Rightarrow> attachment list \<Rightarrow> (world, attachment_info list) prog" where
  "processAttachments clk attachments =
     (if length attachments = 0 then ret []
      else (\<lambda>w. if \<not> drive_available w then (Inl (Thrown ''Drive folder access failed''), w)
                else on_drive (processAttachments_forEach clk attachments 0) w))"

subsection \<open>processMessage\<close>

text \<open>
  \<open>Utilities.formatDate(date, 'JST', 'HH:mm')\<close> for a date given in milliseconds since
  the epoch (Japan standard time is nine hours ahead of UTC), followed by the words
  that make it a reference to the mail.
\<close>

definition two_digits :: "nat \<Rightarrow> jsstring" where
  "two_digits n = [48 + n div 10, 48 + n mod 10]"

definition referenceText :: "nat \<Rightarrow> jsstring" where
  "referenceText date =
     two_digits ((date div 3600000 + 9) mod 24) @ js '':'' @ two_digits (date div 60000 mod 60)
     @ [12398, 12513, 12540, 12523]"

text \<open>
  The attachment block of \<open>processMessage\<close>: a failure of the attachment processing
  is turned into one failure info per attachment.
\<close>

definition attachment_step :: "clock \<Rightarrow> attachment list \<Rightarrow> (world, attachment_info list) prog" where
  "attachment_step clk attachments =
     (if length attachments > 0
      then try_catch (processAttachments clk attachments)
             (\<lambda>e. ret (map (\<lambda>a. \<lparr>originalName = att_name a, savedName = None,
                                     info_size = att_size a,
                                     info_error = Some (Thrown ''Processing failed'')\<rparr>)
                          attachments))
      else ret [])"

text \<open>
  The \<open>try\<close> block of \<open>processMessage\<close>. Neither a failure of the attachment
  processing nor a failure of the notification, which is logged, ends the block.
\<close>

definition processMessage_try :: "config \<Rightarrow> clock \<Rightarrow> message \<Rightarrow> (world, bool) prog" where
  "processMessage_try cfg clk m =
     seq (msg_get m GetSubject (msg_subject m)) (\<lambda>subject.
     seq (msg_get m GetFrom (msg_from m)) (\<lambda>sender.
     seq (msg_get m GetDate (msg_date m)) (\<lambda>date.
     seq (msg_get m GetPlainBody (msg_body m)) (\<lambda>body.
     seq (msg_get m GetAttachments (msg_attachments m)) (\<lambda>attachments.
     seq (msg_get m GetId (msg_id m)) (\<lambda>messageId.
       if \<not> isMatch (checkSubjectPattern cfg subject) then ret False
       else
         seq (attachment_step clk attachments) (\<lambda>attachmentInfo.
         seq (on_chat (notify cfg subject (referenceText date) body)) (\<lambda>_.
           ret True))))))))"

text \<open>The getters that \<open>processMessage\<close> calls do not throw.\<close>

definition gettable :: "message \<Rightarrow> bool" where
  "gettable m = (\<not> msg_faulty m GetSubject \<and> \<not> msg_faulty m GetFrom \<and> \<not> msg_faulty m GetDate
     \<and> \<not> msg_faulty m GetPlainBody \<and> \<not> msg_faulty m GetAttachments \<and> \<not> msg_faulty m GetId)"

text \<open>The \<open>catch\<close> block logs the error and returns \<open>false\<close>.\<close>

definition processMessage :: "config \<Rightarrow> clock \<Rightarrow> message \<Rightarrow> (world, bool) prog" where
  "processMessage cfg clk m = try_catch (processMessage_try cfg clk m) (\<lambda>e. ret False)"

section \<open>processEmails\<close>

text \<open>
  A Gmail thread: its messages, and which of its two getters throw.
\<close>

record thread =
  thread_messages :: "message list"
  subject_fails :: bool
  messages_fail :: bool

text \<open>
  The state of a run: the world, the three counters and the flag
  \<open>threadHasNewMessages\<close> of the thread at hand. An increment made before an exception
  stays made.
\<close>

record run_state =
  the_world :: world
  checkedCount :: nat
  processedCount :: nat
  errorCount :: nat
  threadHasNewMessages :: bool

definition in_world :: "(world, 'a) prog \<Rightarrow> (run_state, 'a) prog" where
  "in_world m = (\<lambda>r. case m (the_world r) of (x, w) \<Rightarrow> (x, r\<lparr>the_world := w\<rparr>))"

definition modify :: "('s \<Rightarrow> 's) \<Rightarrow> ('s, unit) prog" where
  "modify f = (\<lambda>s. (Inr (), f s))"

text \<open>\<open>xs.forEach(callback)\<close>: an exception of the callback ends the loop.\<close>

fun for_each :: "('a \<Rightarrow> ('s, unit) prog) \<Rightarrow> 'a list \<Rightarrow> ('s, unit) prog" where
  "for_each callback [] = ret ()"
| "for_each callback (x # xs) = seq (callback x) (\<lambda>_. for_each callback xs)"

text \<open>
  The callback of \<open>messages.forEach\<close>. \<open>now\<close> is the time of the run. The log line
  before \<open>processMessage\<close> reads the subject of the message.
\<close>

definition message_callback :: "config \<Rightarrow> clock \<Rightarrow> nat \<Rightarrow> message \<Rightarrow> (run_state, unit) prog" where
  "message_callback cfg clk now m =
     try_catch
       (seq (modify (\<lambda>r. r\<lparr>checkedCount := checkedCount r + 1\<rparr>)) (\<lambda>_.
        seq (msg_get m IsInTrash (msg_inTrash m)) (\<lambda>inTrash.
          if inTrash then ret ()
          else seq (in_world (on_ledger (isMessageAlreadyProcessed m))) (\<lambda>already.
            if already then ret ()
            else seq (msg_get m GetSubject (msg_subject m)) (\<lambda>_.
                 seq (in_world (processMessage cfg clk m)) (\<lambda>ok.
                   if ok then
                     seq (modify (\<lambda>r. r\<lparr>processedCount := processedCount r + 1,
                                          threadHasNewMessages := True\<rparr>)) (\<lambda>_.
                       in_world (on_ledger (markMessageProcessedInSheet m now)))
                   else ret ()))))))
       (\<lambda>msgError. modify (\<lambda>r. r\<lparr>errorCount := errorCount r + 1\<rparr>))"

text \<open>
  The callback of \<open>threads.forEach\<close>. Its log line reads the subject of the thread.
  \<open>addProcessedLabel\<close> catches its own exceptions and acts on Gmail labels only, which
  are not modelled.
\<close>

definition thread_callback :: "config \<Rightarrow> clock \<Rightarrow> nat \<Rightarrow> thread \<Rightarrow> (run_state, unit) prog" where
  "thread_callback cfg clk now t =
     try_catch
       (seq (if subject_fails t then throw (Thrown ''GmailThread'') else ret ()) (\<lambda>_.
        seq (if messages_fail t then throw (Thrown ''GmailThread'')
             else ret (thread_messages t)) (\<lambda>messages.
        seq (modify (\<lambda>r. r\<lparr>threadHasNewMessages := False\<rparr>)) (\<lambda>_.
        seq (for_each (message_callback cfg clk now) messages) (\<lambda>_.
          ret ())))))
       (\<lambda>error. modify (\<lambda>r. r\<lparr>errorCount := errorCount r + 1\<rparr>))"

text \<open>
  \<open>validateConfiguration\<close>: the webhook URL must be set and start with
  \<open>https://hooks.slack.com/\<close>, and the Drive folder must be found or created.
\<close>

definition validateConfiguration :: "(world, unit) prog" where
  "validateConfiguration =
     seq (on_chat getWebhookUrl) (\<lambda>webhookUrl.
       if webhookUrl = [] \<or> \<not> startsWith webhookUrl (js ''https://hooks.slack.com/'')
       then throw (Thrown ''Invalid Slack webhook URL in script properties'')
       else (\<lambda>w. if drive_available w then (Inr (), w)
                 else (Inl (Thrown ''getOrCreateDriveFolder''), w)))"

text \<open>
  \<open>sendErrorSummary\<close> and \<open>sendErrorNotification\<close> post one message each and catch
  their own exceptions. The fields of the two messages (counts, rate, times, the error
  text) are left out.
\<close>

definition sendErrorSummary :: "nat \<Rightarrow> nat \<Rightarrow> (slack, unit) prog" where
  "sendErrorSummary processedTotal errorTotal =
     try_catch
       (seq getWebhookUrl (\<lambda>_.
        seq (fetch \<lparr>icon_emoji = '':bar_chart:'', post_text = [], post_title = [],
                    post_body = []\<rparr>) (\<lambda>_. ret ())))
       (\<lambda>e. ret ())"

definition sendErrorNotification :: "(slack, unit) prog" where
  "sendErrorNotification =
     try_catch
       (seq getWebhookUrl (\<lambda>_.
        seq (fetch \<lparr>icon_emoji = '':warning:'', post_text = [], post_title = [],
                    post_body = []\<rparr>) (\<lambda>_. ret ())))
       (\<lambda>e. ret ())"

text \<open>The counts that the run logs when it completes.\<close>

record report =
  reported_checked :: nat
  reported_processed :: nat
  reported_errors :: nat

text \<open>
  \<open>processEmails\<close>. \<open>mailbox\<close> is the outcome of \<open>GmailApp.search\<close>: the threads found,
  or a throw. A run that finds no thread returns early, without a report. An exception
  that reaches the outer \<open>catch\<close> block is reported to Slack and thrown again.
\<close>

definition processEmails ::
  "config \<Rightarrow> clock \<Rightarrow> nat \<Rightarrow> error + thread list \<Rightarrow> (world, report option) prog" where
  "processEmails cfg clk now mailbox =
     try_catch
       (seq validateConfiguration (\<lambda>_.
        seq (case mailbox of Inl e \<Rightarrow> throw e | Inr threads \<Rightarrow> ret threads) (\<lambda>threads.
          if length threads = 0 then ret None
          else (\<lambda>w.
            case for_each (thread_callback cfg clk now) threads
                   \<lparr>the_world = w, checkedCount = 0, processedCount = 0, errorCount = 0,
                    threadHasNewMessages = False\<rparr> of
              (Inl e, r) \<Rightarrow> (Inl e, the_world r)
            | (Inr _, r) \<Rightarrow>
                seq (if errorCount r > 0
                     then on_chat (sendErrorSummary (processedCount r) (errorCount r))
                     else ret ()) (\<lambda>_.
                  ret (Some \<lparr>reported_checked = checkedCount r,
                              reported_processed = processedCount r,
                              reported_errors = errorCount r\<rparr>))
                  (the_world r)))))
       (\<lambda>error. seq (on_chat sendErrorNotification) (\<lambda>_. throw error))"

text \<open>The summary notifications among the requests that the webhook answered.\<close>

definition summaries :: "world \<Rightarrow> nat" where
  "summaries w = length (filter (\<lambda>(payload, code). icon_emoji payload = '':bar_chart:'')
     (requests (chat w)))"

text \<open>
  The webhook \<open>s'\<close> is the webhook \<open>s\<close> after further requests, none of which is a
  summary notification.
\<close>

definition extends_quietly :: "slack \<Rightarrow> slack \<Rightarrow> bool" where
  "extends_quietly s s' =
     (webhook_url s' = webhook_url s \<and> respond s' = respond s
      \<and> (\<exists>new. requests s' = requests s @ new
             \<and> list_all (\<lambda>(payload, code). icon_emoji payload \<noteq> '':bar_chart:'') new))"

text \<open>
  The threads whose getters throw, and the messages of the other threads, in the order
  in which the run meets them.
\<close>

definition failed_threads :: "thread list \<Rightarrow> thread list" where
  "failed_threads threads = filter (\<lambda>t. subject_fails t \<or> messages_fail t) threads"

definition reachable_messages :: "thread list \<Rightarrow> message list" where
  "reachable_messages threads =
     concat (map thread_messages (filter (\<lambda>t. \<not> (subject_fails t \<or> messages_fail t)) threads))"

text \<open>The webhook URL is set and starts with \<open>https://hooks.slack.com/\<close>.\<close>

definition valid_webhook :: "slack \<Rightarrow> bool" where
  "valid_webhook s =
     (case webhook_url s of
        None \<Rightarrow> False
      | Some url \<Rightarrow> url \<noteq> [] \<and> startsWith url (js ''https://hooks.slack.com/''))"

text \<open>A webhook with a valid URL that answers every request with some response code.\<close>

definition answering :: "slack \<Rightarrow> bool" where
  "answering s = (valid_webhook s \<and> (\<forall>n. \<exists>code. respond s n = Inr code))"

text \<open>
  What the run does with a message, given the ledger at that moment.

  \<^item> \<open>Raised\<close>: an exception reaches the handler of the message loop: \<open>isInTrash\<close>
    throws, or the message is new and \<open>getSubject\<close> throws in the log line before
    \<open>processMessage\<close>.
  \<^item> \<open>Skipped\<close>: the message is in the trash or \<open>isMessageAlreadyProcessed\<close> says
    it is in the ledger.
  \<^item> \<open>Swallowed\<close>: another getter throws inside \<open>processMessage\<close>.
  \<^item> \<open>Rejected\<close>: the subject does not match.
  \<^item> \<open>Processed\<close>: the getters succeed and the subject matches.
\<close>

datatype outcome = Raised | Skipped | Swallowed | Rejected | Processed

definition outcome :: "config \<Rightarrow> message \<Rightarrow> store \<Rightarrow> outcome" where
  "outcome cfg m st =
     (if msg_faulty m IsInTrash then Raised
      else if msg_inTrash m then Skipped
      else if fst (isMessageAlreadyProcessed m st) = Inr True then Skipped
      else if msg_faulty m GetSubject then Raised
      else if \<not> gettable m then Swallowed
      else if \<not> isMatch (checkSubjectPattern cfg (msg_subject m)) then Rejected
      else Processed)"

text \<open>The ledger after a message with that outcome: only a processed message is recorded.\<close>

definition ledger_after :: "config \<Rightarrow> nat \<Rightarrow> message \<Rightarrow> store \<Rightarrow> store" where
  "ledger_after cfg now m st =
     (if outcome cfg m st = Processed then snd (markMessageProcessedInSheet m now st) else st)"

text \<open>
  The outcomes of the messages of a run, in order, each against the ledger that the
  messages before it left, and the ledger after the last one.
\<close>

fun outcomes :: "config \<Rightarrow> nat \<Rightarrow> message list \<Rightarrow> store \<Rightarrow> outcome list" where
  "outcomes cfg now [] st = []"
| "outcomes cfg now (m # ms) st = outcome cfg m st # outcomes cfg now ms (ledger_after cfg now m st)"

fun run_ledger :: "config \<Rightarrow> nat \<Rightarrow> message list \<Rightarrow> store \<Rightarrow> store" where
  "run_ledger cfg now [] st = st"
| "run_ledger cfg now (m # ms) st = run_ledger cfg now ms (ledger_after cfg now m st)"

text \<open>
  The run records the message: it is outside the trash, its id is not in the ledger,
  its getters succeed and its subject matches.
\<close>

definition recorded_by_run :: "config \<Rightarrow> message \<Rightarrow> store \<Rightarrow> bool" where
  "recorded_by_run cfg m st =
     (\<not> msg_faulty m IsInTrash \<and> \<not> msg_inTrash m \<and> msg_id m \<notin> row_id ` set (data_rows st)
      \<and> gettable m \<and> isMatch (checkSubjectPattern cfg (msg_subject m)))"

text \<open>The rows of the ledger that carry the id of a message.\<close>

definition entries_of :: "message \<Rightarrow> store \<Rightarrow> row list" where
  "entries_of m st = filter (\<lambda>r. row_id r = msg_id m) (data_rows st)"

text \<open>
  The candidate names as the specification words them: the sanitized original name,
  with the 1-based position inserted before the extension only for an attachment whose
  original name an earlier attachment of the sequence has too.
\<close>

definition suffixed :: "jsstring \<Rightarrow> nat \<Rightarrow> jsstring" where
  "suffixed cleanName n =
     (let parts = split_str 46 cleanName
      in if length parts > 1
         then join_str (js ''.'') (butlast parts) @ js ''_'' @ decimal n @ js ''.'' @ last parts
         else cleanName @ js ''_'' @ decimal n)"

definition spec_candidate_name :: "jsstring list \<Rightarrow> nat \<Rightarrow> jsstring" where
  "spec_candidate_name names i =
     (let cleanName = trim (replace_illegal (names ! i))
      in if names ! i \<in> set (take i names) then suffixed cleanName (i + 1) else cleanName)"

section \<open>Example data\<close>

definition example_message :: message where
  "example_message = \<lparr>msg_id = js ''18c5a7b2f3e4d5a6'', msg_subject = js ''Meeting notice'',
     msg_from = js ''newsletter@company.com'', msg_date = 0, msg_body = js ''Hello.'',
     msg_attachments = [], msg_inTrash = False, msg_faulty = (\<lambda>a. False)\<rparr>"

definition empty_store :: store where
  "empty_store = \<lparr>sheet = Some [], faulty = (\<lambda>a. False), mutations = []\<rparr>"

text \<open>A sheet one row short of the cleanup trigger.\<close>

definition full_store :: store where
  "full_store = \<lparr>sheet = Some (replicate 10999 (ledger_entry example_message 0)),
     faulty = (\<lambda>a. False), mutations = []\<rparr>"

text \<open>A sheet that holds the example message and whose range reads throw.\<close>

definition unreadable_store :: store where
  "unreadable_store = \<lparr>sheet = Some [ledger_entry example_message 0],
     faulty = (\<lambda>a. a = GetRange), mutations = []\<rparr>"

text \<open>
  A regular expression that is a plain word: it matches the subjects that contain the
  word.
\<close>

definition contains_word :: "jsstring \<Rightarrow> jsstring \<Rightarrow> bool" where
  "contains_word w s = list_ex (\<lambda>i. take (length w) (drop i s) = w) [0 ..< Suc (length s)]"

definition word_pattern :: "string \<Rightarrow> pattern" where
  "word_pattern w = \<lparr>pat_source = js (''/'' @ w @ ''/''),
     pat_test = (\<lambda>s. Inr (contains_word (js w) s))\<rparr>"

text \<open>An entry that is a string, not a regular expression: its \<open>test\<close> throws.\<close>

definition string_entry :: "string \<Rightarrow> pattern" where
  "string_entry w = \<lparr>pat_source = js w,
     pat_test = (\<lambda>s. Inl (Thrown ''pattern.test is not a function''))\<rparr>"

definition example_patterns :: "jsstring \<Rightarrow> subject_patterns" where
  "example_patterns mode = \<lparr>ENABLE_MULTIPLE_PATTERNS = True, MATCH_MODE = Some mode,
     PATTERNS = Some (map Some [word_pattern ''memo'', string_entry ''notice'',
                                word_pattern ''notice'', word_pattern ''Meeting''])\<rparr>"

text \<open>
  Patterns in mode \<open>'all'\<close> whose second element is a hole of the array literal, as
  in \<open>[/notice/, , /Meeting/]\<close>.
\<close>

definition holed_patterns :: subject_patterns where
  "holed_patterns = \<lparr>ENABLE_MULTIPLE_PATTERNS = True, MATCH_MODE = Some (js ''all''),
     PATTERNS = Some [Some (word_pattern ''notice''), None, Some (word_pattern ''Meeting'')]\<rparr>"

text \<open>A clock whose time formatting succeeds.\<close>

definition example_clock :: clock where
  "example_clock = \<lparr>formatted_time = Inr (js ''093000''), millis = 1700000000000\<rparr>"

text \<open>A folder that holds \<open>a.txt\<close> and \<open>a_1.txt\<close> to \<open>a_99.txt\<close>.\<close>

definition crowded_folder :: folder where
  "crowded_folder = \<lparr>files = js ''a.txt'' # map (\<lambda>k. js ''a_'' @ decimal k @ js ''.txt'') [1 ..< 100],
     lookup_fails = (\<lambda>n. False), create_fails = (\<lambda>n. False)\<rparr>"

text \<open>A folder that already holds a file \<open>report.pdf\<close>, and two attachments of that name.\<close>

definition report_folder :: folder where
  "report_folder = \<lparr>files = [js ''report.pdf''], lookup_fails = (\<lambda>n. False),
     create_fails = (\<lambda>n. False)\<rparr>"

definition report_attachment :: attachment where
  "report_attachment = \<lparr>att_name = js ''report.pdf'', att_size = 1024\<rparr>"

text \<open>
  The configuration of the source: body preview length 20000, full body shown, and the
  example patterns in mode \<open>'any'\<close>.
\<close>

definition source_config :: config where
  "source_config = \<lparr>SUBJECT_PATTERNS = Some (example_patterns (js ''any'')),
     SUBJECT_PATTERN = word_pattern ''notice'', BODY_PREVIEW_LENGTH = 20000,
     SHOW_FULL_EMAIL_BODY = True\<rparr>"

text \<open>A webhook that accepts every request and has received none.\<close>

definition open_webhook :: slack where
  "open_webhook = \<lparr>webhook_url = Some (js ''https://hooks.slack.com/services/T0/B0/x''),
     respond = (\<lambda>n. Inr 200), requests = []\<rparr>"

text \<open>The reference to a mail of 09:30 that the continuation messages carry.\<close>

definition reference_text :: jsstring where
  "reference_text = js ''09:30'' @ [12398, 12513, 12540, 12523]"

text \<open>
  A world with the empty ledger, and messages whose body getter, trash test or subject
  getter throws.
\<close>

definition quiet_world :: world where
  "quiet_world = \<lparr>ledger = empty_store, drive = report_folder, drive_available = True,
     chat = open_webhook\<rparr>"

definition unreadable_message :: message where
  "unreadable_message = example_message\<lparr>msg_faulty := (\<lambda>a. a = GetPlainBody)\<rparr>"

definition untrashable_message :: message where
  "untrashable_message = example_message\<lparr>msg_faulty := (\<lambda>a. a = IsInTrash)\<rparr>"

definition untitled_message :: message where
  "untitled_message = example_message\<lparr>msg_faulty := (\<lambda>a. a = GetSubject)\<rparr>"

text \<open>
  A thread with those messages, followed by the example message twice, and a thread
  whose subject getter throws.
\<close>

definition example_thread :: thread where
  "example_thread = \<lparr>thread_messages = [untrashable_message, unreadable_message,
       untitled_message, example_message, example_message],
     subject_fails = False, messages_fail = False\<rparr>"

definition broken_thread :: thread where
  "broken_thread = \<lparr>thread_messages = [example_message], subject_fails = True,
     messages_fail = False\<rparr>"

definition fresh_run :: run_state where
  "fresh_run = \<lparr>the_world = quiet_world, checkedCount = 0, processedCount = 0, errorCount = 0,
     threadHasNewMessages = False\<rparr>"

section \<open>Verified properties\<close>

lemmas prog_defs = ret_def throw_def seq_def try_catch_def api_call_def msg_get_def

lemmas sheet_defs = getOrCreateTrackingSpreadsheet_def getSheetByName_def getLastRow_def
  getRangeColumn1_def appendRow_def deleteRows_def

subsection \<open>The ledger\<close>

lemma range_all:
  "map (\<lambda>i. if i < length rs then row_id (rs ! i) else []) [0 ..< length rs] = map row_id rs"
  by (rule nth_equalityI) simp_all

lemma lookup_healthy:
  assumes "healthy st"
  shows "isMessageProcessedInSheet mid st = (Inr (mid \<in> row_id ` set (data_rows st)), st)"
proof (cases "data_rows st = []")
  case True
  with assms show ?thesis
    by (simp add: isMessageProcessedInSheet_def isMessageProcessedInSheet_try_def healthy_def
        getOrCreateTrackingSpreadsheet_def getSheetByName_def getLastRow_def prog_defs)
next
  case False
  then have "0 < length (data_rows st)" by simp
  with assms show ?thesis
    using range_all [of "data_rows st"]
    by (simp add: isMessageProcessedInSheet_def isMessageProcessedInSheet_try_def healthy_def
        sheet_defs prog_defs)
qed

text \<open>
  C2. When a store access throws during the membership query, that is when the
  \<open>try\<close> block of \<open>isMessageProcessedInSheet\<close> ends in an exception, the function
  returns \<open>false\<close> and raises nothing, and so does its caller
  \<open>isMessageAlreadyProcessed\<close>; the store is left as it was.
\<close>

theorem has_fails_open:
  assumes "fst (isMessageProcessedInSheet_try (msg_id m) st) = Inl e"
  shows "isMessageProcessedInSheet (msg_id m) st = (Inr False, st)
       \<and> isMessageAlreadyProcessed m st = (Inr False, st)"
  using assms
  by (auto simp add: isMessageAlreadyProcessed_def isMessageProcessedInSheet_def
        isMessageProcessedInSheet_try_def sheet_defs prog_defs
        split: sum.splits prod.splits if_splits)

theorem has_fails_open_witness:
  "fst (isMessageProcessedInSheet_try (msg_id example_message) unreadable_store)
     = Inl (Thrown ''getRange'')
   \<and> msg_id example_message \<in> row_id ` set (data_rows unreadable_store)
   \<and> isMessageProcessedInSheet (msg_id example_message) unreadable_store
     = (Inr False, unreadable_store)
   \<and> isMessageAlreadyProcessed example_message unreadable_store = (Inr False, unreadable_store)"
proof -
  have t: "fst (isMessageProcessedInSheet_try (msg_id example_message) unreadable_store)
     = Inl (Thrown ''getRange'')"
    by (simp add: isMessageProcessedInSheet_try_def sheet_defs prog_defs unreadable_store_def
        data_rows_def)
  have "msg_id example_message \<in> row_id ` set (data_rows unreadable_store)"
    by (simp add: unreadable_store_def data_rows_def ledger_entry_def)
  with t has_fails_open [OF t] show ?thesis by simp
qed

lemma mark_healthy_small:
  assumes "healthy st" "recordable m"
    and "length (data_rows st) + 2 \<le> MAX_ROWS + CLEANUP_BATCH_SIZE"
  shows "markMessageProcessedInSheet m now st =
     (Inr (), st\<lparr>sheet := Some (data_rows st @ [ledger_entry m now]),
                  mutations := mutations st @ [Appended (ledger_entry m now)]\<rparr>)"
  using assms
  by (simp add: markMessageProcessedInSheet_def healthy_def ledger_entry_def data_rows_def
      sheet_defs prog_defs recordable_def)

lemma batch_size:
  assumes "MAX_ROWS + CLEANUP_BATCH_SIZE < n + 2"
  shows "nat (min (int (Suc (Suc n)) - int MAX_ROWS - 1) (int CLEANUP_BATCH_SIZE))
       = CLEANUP_BATCH_SIZE"
    and "\<not> int (Suc (Suc n)) - int MAX_ROWS - 1 \<le> 0"
  using assms by (simp_all add: MAX_ROWS_def CLEANUP_BATCH_SIZE_def)

lemma mark_healthy_full:
  assumes "healthy st" "recordable m"
    and big: "MAX_ROWS + CLEANUP_BATCH_SIZE < length (data_rows st) + 2"
  shows "markMessageProcessedInSheet m now st =
     (Inr (), st\<lparr>sheet := Some (drop CLEANUP_BATCH_SIZE (data_rows st @ [ledger_entry m now])),
                  mutations := mutations st @ [Appended (ledger_entry m now),
                                               Deleted 2 CLEANUP_BATCH_SIZE]\<rparr>)"
proof -
  from assms obtain rows where rows: "sheet st = Some rows"
    by (auto simp add: healthy_def)
  with big have n: "MAX_ROWS + CLEANUP_BATCH_SIZE < length rows + 2"
    by (simp add: data_rows_def)
  then have "CLEANUP_BATCH_SIZE \<le> length rows"
    by (simp add: MAX_ROWS_def)
  moreover have "0 < CLEANUP_BATCH_SIZE"
    by (simp add: CLEANUP_BATCH_SIZE_def)
  ultimately show ?thesis
    using assms rows n batch_size [OF n]
    by (simp add: markMessageProcessedInSheet_def cleanupOldEntriesInSheet_def healthy_def
      ledger_entry_def data_rows_def sheet_defs prog_defs recordable_def Let_def)
qed

lemma mark_healthy:
  assumes "healthy st" "recordable m"
  shows "markMessageProcessedInSheet m now st =
     (Inr (),
      st\<lparr>sheet := Some (if MAX_ROWS + CLEANUP_BATCH_SIZE < length (data_rows st) + 2
                         then drop CLEANUP_BATCH_SIZE (data_rows st @ [ledger_entry m now])
                         else data_rows st @ [ledger_entry m now]),
         mutations := mutations st @
                        (if MAX_ROWS + CLEANUP_BATCH_SIZE < length (data_rows st) + 2
                         then [Appended (ledger_entry m now), Deleted 2 CLEANUP_BATCH_SIZE]
                         else [Appended (ledger_entry m now)])\<rparr>)"
proof (cases "length (data_rows st) + 2 \<le> MAX_ROWS + CLEANUP_BATCH_SIZE")
  case True
  with assms show ?thesis by (simp add: mark_healthy_small)
next
  case False
  with assms show ?thesis by (simp add: mark_healthy_full)
qed

lemma mark_step:
  assumes "healthy st" "recordable m"
  shows "healthy (snd (markMessageProcessedInSheet m now st))"
    and "append_then_evict m now
           (drop (length (mutations st)) (mutations (snd (markMessageProcessedInSheet m now st))))"
    and "data_rows (snd (markMessageProcessedInSheet m now st)) \<noteq> []"
    and "last (data_rows (snd (markMessageProcessedInSheet m now st))) = ledger_entry m now"
    and "length (data_rows st) < MAX_ROWS + CLEANUP_BATCH_SIZE
           \<Longrightarrow> length (data_rows (snd (markMessageProcessedInSheet m now st)))
                 < MAX_ROWS + CLEANUP_BATCH_SIZE"
proof -
  note eq = mark_healthy [OF assms, of now]
  from assms(1) show "healthy (snd (markMessageProcessedInSheet m now st))"
    by (simp add: eq healthy_def)
  show "append_then_evict m now
           (drop (length (mutations st)) (mutations (snd (markMessageProcessedInSheet m now st))))"
    by (simp add: eq append_then_evict_def)
  show "data_rows (snd (markMessageProcessedInSheet m now st)) \<noteq> []"
    by (auto simp add: eq data_rows_def MAX_ROWS_def CLEANUP_BATCH_SIZE_def)
  show "last (data_rows (snd (markMessageProcessedInSheet m now st))) = ledger_entry m now"
    by (auto simp add: eq data_rows_def MAX_ROWS_def CLEANUP_BATCH_SIZE_def)
  show "length (data_rows (snd (markMessageProcessedInSheet m now st)))
      < MAX_ROWS + CLEANUP_BATCH_SIZE"
    if "length (data_rows st) < MAX_ROWS + CLEANUP_BATCH_SIZE"
    using that
    by (auto simp add: eq data_rows_def MAX_ROWS_def CLEANUP_BATCH_SIZE_def split: option.splits)
qed

lemma record_calls_snoc:
  "record_calls (ms @ [m]) now st
     = snd (markMessageProcessedInSheet m now (record_calls ms now st))"
  by (induction ms arbitrary: st) simp_all

lemma record_calls_inv:
  assumes "healthy st" "list_all recordable ms"
  shows "healthy (record_calls ms now st)
       \<and> list_all2 (\<lambda>m log. append_then_evict m now log) ms (call_logs ms now st)
       \<and> (length (data_rows st) < MAX_ROWS + CLEANUP_BATCH_SIZE
            \<longrightarrow> length (data_rows (record_calls ms now st)) < MAX_ROWS + CLEANUP_BATCH_SIZE)"
  using assms
proof (induction ms arbitrary: st)
  case Nil
  then show ?case by simp
next
  case (Cons m ms)
  from Cons.prems have m: "recordable m" and ms: "list_all recordable ms" by simp_all
  note step = mark_step [OF Cons.prems(1) m, of now]
  from Cons.IH [OF step(1) ms] step(2) step(5) show ?case by simp
qed

text \<open>
  C3. On a store whose calls succeed, for messages whose getters succeed:

  \<^item> one record call appends the entry of its message and, exactly when the sheet then
    has more than \<open>MAX_ROWS + CLEANUP_BATCH_SIZE\<close> rows (header included), deletes
    \<open>CLEANUP_BATCH_SIZE\<close> rows from the oldest data row (sheet row 2): the rows left are
    the old rows followed by the new entry, without their first \<open>CLEANUP_BATCH_SIZE\<close>,
    and the call's mutations are the append followed by that one deletion;
  \<^item> in every sequence of record calls, each call's own mutations are the append of its
    message's entry, followed by at most that one deletion;
  \<^item> after every sequence of record calls the last data row is the entry of the message
    recorded last;
  \<^item> from a sheet with fewer than \<open>MAX_ROWS + CLEANUP_BATCH_SIZE\<close> data rows (the empty
    sheet among them), every sequence of record calls (so also one of
    \<open>MAX_ROWS + CLEANUP_BATCH_SIZE + 1\<close> calls) again leaves fewer than
    \<open>MAX_ROWS + CLEANUP_BATCH_SIZE\<close> data rows, on a store whose calls succeed.
\<close>

theorem eviction_after_append:
  assumes "healthy st" and "list_all recordable ms" and "recordable m"
  shows "markMessageProcessedInSheet m now st =
       (Inr (),
        st\<lparr>sheet := Some (if MAX_ROWS + CLEANUP_BATCH_SIZE < length (data_rows st) + 2
                           then drop CLEANUP_BATCH_SIZE (data_rows st @ [ledger_entry m now])
                           else data_rows st @ [ledger_entry m now]),
           mutations := mutations st @
                          (if MAX_ROWS + CLEANUP_BATCH_SIZE < length (data_rows st) + 2
                           then [Appended (ledger_entry m now), Deleted 2 CLEANUP_BATCH_SIZE]
                           else [Appended (ledger_entry m now)])\<rparr>)
     \<and> list_all2 (\<lambda>m log. append_then_evict m now log) ms (call_logs ms now st)
     \<and> data_rows (record_calls (ms @ [m]) now st) \<noteq> []
     \<and> last (data_rows (record_calls (ms @ [m]) now st)) = ledger_entry m now
     \<and> healthy (record_calls ms now st)
     \<and> (length (data_rows st) < MAX_ROWS + CLEANUP_BATCH_SIZE
          \<longrightarrow> length (data_rows (record_calls ms now st)) < MAX_ROWS + CLEANUP_BATCH_SIZE)"
proof -
  note inv = record_calls_inv [OF assms(1,2), of now]
  then have h: "healthy (record_calls ms now st)" by simp
  from mark_step(3,4) [OF h assms(3), of now] inv mark_healthy [OF assms(1,3), of now]
  show ?thesis by (simp add: record_calls_snoc)
qed

theorem eviction_after_append_witness:
  "healthy full_store \<and> recordable example_message
   \<and> length (data_rows full_store) = 10999
   \<and> markMessageProcessedInSheet example_message 7 full_store =
       (Inr (),
        full_store\<lparr>sheet := Some (drop 1000 (data_rows full_store
                                               @ [ledger_entry example_message 7])),
           mutations := [Appended (ledger_entry example_message 7), Deleted 2 1000]\<rparr>)
   \<and> call_logs [example_message] 7 full_store
       = [[Appended (ledger_entry example_message 7), Deleted 2 1000]]
   \<and> last (data_rows (record_calls [example_message, example_message] 7 full_store))
       = ledger_entry example_message 7
   \<and> length (data_rows (record_calls [example_message] 7 full_store)) = 10000
   \<and> length (data_rows (record_calls [example_message] 7 full_store))
       < MAX_ROWS + CLEANUP_BATCH_SIZE"
proof -
  have h: "healthy full_store"
    by (simp add: healthy_def full_store_def)
  have m: "recordable example_message"
    by (simp add: recordable_def example_message_def)
  have r: "list_all recordable [example_message]"
    using m by simp
  have l: "length (data_rows full_store) = 10999"
    by (simp add: full_store_def data_rows_def)
  have s: "mutations full_store = []"
    by (simp add: full_store_def)
  note inst = eviction_after_append [OF h r m, of 7]
  from inst have eq: "markMessageProcessedInSheet example_message 7 full_store =
       (Inr (),
        full_store\<lparr>sheet := Some (drop 1000 (data_rows full_store
                                               @ [ledger_entry example_message 7])),
           mutations := [Appended (ledger_entry example_message 7), Deleted 2 1000]\<rparr>)"
    by (simp add: l s MAX_ROWS_def CLEANUP_BATCH_SIZE_def)
  from inst [unfolded append_Cons append_Nil]
  have final: "last (data_rows (record_calls [example_message, example_message] 7
      full_store)) = ledger_entry example_message 7"
    by blast
  have logs: "call_logs [example_message] 7 full_store
       = [[Appended (ledger_entry example_message 7), Deleted 2 1000]]"
    by (simp add: eq s)
  have "data_rows (record_calls [example_message] 7 full_store)
      = drop 1000 (data_rows full_store @ [ledger_entry example_message 7])"
    by (simp add: eq) (simp add: data_rows_def)
  then have len: "length (data_rows (record_calls [example_message] 7 full_store)) = 10000"
    by (simp add: l)
  from len have bound: "length (data_rows (record_calls [example_message] 7 full_store))
       < MAX_ROWS + CLEANUP_BATCH_SIZE"
    by (simp add: MAX_ROWS_def CLEANUP_BATCH_SIZE_def)
  from h m l eq logs final len bound show ?thesis by blast
qed

subsection \<open>Subject patterns\<close>

lemma any_loop:
  assumes "\<not> list_ex pr_isMatch results"
  shows "\<exists>r. check_loop S (js ''any'') n (map Some ps) results checked = Inr r
       \<and> isMatch r = list_ex (matches S) ps
       \<and> matchedPattern r = map_option pat_source (find (matches S) ps)
       \<and> checkedPatterns r
           = checked @ map pat_source (takeWhile (\<lambda>p. \<not> matches S p) ps)
                     @ map pat_source (take 1 (dropWhile (\<lambda>p. \<not> matches S p) ps))"
  using assms
proof (induction ps arbitrary: results checked)
  case Nil
  then show ?case by (simp add: final_result_def Let_def)
next
  case (Cons p ps)
  show ?case
  proof (cases "pat_test p S")
    case (Inl e)
    with Cons.prems Cons.IH [of "results @ [\<lparr>pr_pattern = pat_source p, pr_isMatch = False,
                               pr_error = Some e\<rparr>]" "checked @ [pat_source p]"]
    show ?thesis by (simp add: matches_def Let_def)
  next
    case (Inr b)
    with Cons.prems Cons.IH [of "results @ [\<lparr>pr_pattern = pat_source p, pr_isMatch = False,
                               pr_error = None\<rparr>]" "checked @ [pat_source p]"]
    show ?thesis by (cases b) (simp_all add: matches_def Let_def)
  qed
qed

lemma all_loop:
  assumes "mode \<noteq> js ''any''"
  shows "\<exists>r. check_loop S mode n (map Some ps) results checked = Inr r
       \<and> isMatch r = (list_all pr_isMatch results \<and> list_all (matches S) ps)
       \<and> checkedPatterns r = checked @ map pat_source ps
       \<and> map pr_pattern (allResults r) = map pr_pattern results @ map pat_source ps
       \<and> map pr_isMatch (allResults r) = map pr_isMatch results @ map (matches S) ps"
  using assms
proof (induction ps arbitrary: results checked)
  case Nil
  then show ?case by (simp add: final_result_def Let_def)
next
  case (Cons p ps)
  show ?case
  proof (cases "pat_test p S")
    case (Inl e)
    with Cons.prems Cons.IH [of "results @ [\<lparr>pr_pattern = pat_source p, pr_isMatch = False,
                               pr_error = Some e\<rparr>]" "checked @ [pat_source p]"]
    show ?thesis by (simp add: matches_def Let_def)
  next
    case (Inr b)
    with Cons.prems Cons.IH [of "results @ [\<lparr>pr_pattern = pat_source p, pr_isMatch = b,
                               pr_error = None\<rparr>]" "checked @ [pat_source p]"]
    show ?thesis by (cases b) (auto simp add: matches_def Let_def)
  qed
qed

lemma example_matches:
  "\<not> matches (js ''Meeting notice'') (word_pattern ''memo'')"
  "\<not> matches (js ''Meeting notice'') (string_entry ''notice'')"
  "matches (js ''Meeting notice'') (word_pattern ''notice'')"
  "matches (js ''Meeting notice'') (word_pattern ''Meeting'')"
  by (simp_all add: matches_def word_pattern_def string_entry_def contains_word_def js_def
      upt_rec [of _ "Suc _"])

text \<open>
  C4. In mode \<open>'any'\<close> (the mode that \<open>MATCH_MODE || 'any'\<close> yields), for every
  subject and every list of patterns, \<open>checkMultiplePatterns\<close> returns a result whose
  \<open>isMatch\<close> is true exactly when some pattern of the list matches the subject, whose
  \<open>matchedPattern\<close> is the first pattern in list order that matches (none when none
  matches), and whose checked patterns are those up to and including that first match.
\<close>

theorem any_mode_first_match:
  assumes "or_default (MATCH_MODE sp) (js ''any'') = js ''any''"
    and "PATTERNS sp = Some (map Some P)"
  shows "\<exists>r. checkMultiplePatterns sp S = Inr r
       \<and> isMatch r = (\<exists>p \<in> set P. matches S p)
       \<and> matchedPattern r = map_option pat_source (find (matches S) P)
       \<and> checkedPatterns r
           = map pat_source (takeWhile (\<lambda>p. \<not> matches S p) P)
             @ map pat_source (take 1 (dropWhile (\<lambda>p. \<not> matches S p) P))"
  using assms any_loop [of "[]" S "length (map Some P)" P "[]"]
  by (simp add: checkMultiplePatterns_def list_ex_iff)

theorem any_mode_first_match_witness:
  "\<exists>r. checkMultiplePatterns (example_patterns (js ''any'')) (js ''Meeting notice'') = Inr r
     \<and> isMatch r \<and> matchedPattern r = Some (js ''/notice/'')
     \<and> checkedPatterns r = [js ''/memo/'', js ''notice'', js ''/notice/'']"
proof -
  have m: "or_default (MATCH_MODE (example_patterns (js ''any''))) (js ''any'') = js ''any''"
    by (simp add: example_patterns_def or_default_def)
  have p: "PATTERNS (example_patterns (js ''any''))
      = Some (map Some [word_pattern ''memo'', string_entry ''notice'', word_pattern ''notice'',
              word_pattern ''Meeting''])"
    by (simp add: example_patterns_def)
  have s: "pat_source (word_pattern ''memo'') = js ''/memo/''"
    "pat_source (string_entry ''notice'') = js ''notice''"
    "pat_source (word_pattern ''notice'') = js ''/notice/''"
    by (simp_all add: word_pattern_def string_entry_def)
  from any_mode_first_match [OF m p, of "js ''Meeting notice''"] show ?thesis
    by (simp add: example_matches s)
qed

text \<open>
  For a list without \<open>null\<close> and \<open>undefined\<close> elements, in any mode other than
  \<open>'any'\<close>: every pattern is tested, in order; \<open>checkedPatterns\<close> and \<open>allResults\<close>
  have one entry per pattern, the entry of a pattern whose test throws is a non-match,
  and \<open>isMatch\<close> is true exactly when every pattern matches the subject.
\<close>

lemma all_mode_without_holes:
  assumes "or_default (MATCH_MODE sp) (js ''any'') \<noteq> js ''any''"
    and "PATTERNS sp = Some (map Some P)"
  shows "\<exists>r. checkMultiplePatterns sp S = Inr r
       \<and> isMatch r = (\<forall>p \<in> set P. matches S p)
       \<and> checkedPatterns r = map pat_source P
       \<and> map pr_pattern (allResults r) = map pat_source P
       \<and> map pr_isMatch (allResults r) = map (matches S) P"
  using assms all_loop [of "or_default (MATCH_MODE sp) (js ''any'')" S "length (map Some P)" P
      "[]" "[]"]
  by (simp add: checkMultiplePatterns_def list_all_iff)

lemma all_mode_example:
  "\<exists>r. checkMultiplePatterns (example_patterns (js ''all'')) (js ''Meeting notice'') = Inr r
     \<and> \<not> isMatch r
     \<and> checkedPatterns r = [js ''/memo/'', js ''notice'', js ''/notice/'', js ''/Meeting/'']
     \<and> map pr_isMatch (allResults r) = [False, False, True, True]"
proof -
  have m: "or_default (MATCH_MODE (example_patterns (js ''all''))) (js ''any'') \<noteq> js ''any''"
    by (simp add: example_patterns_def or_default_def js_def)
  have p: "PATTERNS (example_patterns (js ''all''))
      = Some (map Some [word_pattern ''memo'', string_entry ''notice'', word_pattern ''notice'',
              word_pattern ''Meeting''])"
    by (simp add: example_patterns_def)
  have s: "pat_source (word_pattern ''memo'') = js ''/memo/''"
    "pat_source (string_entry ''notice'') = js ''notice''"
    "pat_source (word_pattern ''notice'') = js ''/notice/''"
    "pat_source (word_pattern ''Meeting'') = js ''/Meeting/''"
    by (simp_all add: word_pattern_def string_entry_def)
  from all_mode_without_holes [OF m p, of "js ''Meeting notice''"] show ?thesis
    by (auto simp add: example_matches s)
qed

text \<open>
  C5. The code breaks the claim on a pattern list with a hole. With the patterns
  \<open>[/notice/, , /Meeting/]\<close> in mode \<open>'all'\<close> and the subject \<open>Meeting notice\<close>, which
  both patterns match, \<open>pattern.toString()\<close> throws on the second element before the
  \<open>try\<close> block of the loop body is entered: \<open>checkMultiplePatterns\<close> throws instead of
  recording a non-match and testing the third pattern, and \<open>checkSubjectPattern\<close>
  returns a non-match with no checked pattern at all.
\<close>

theorem hole_aborts_evaluation:
  "checkMultiplePatterns holed_patterns (js ''Meeting notice'') = Inl (Thrown ''pattern.toString'')
   \<and> matches (js ''Meeting notice'') (word_pattern ''notice'')
   \<and> matches (js ''Meeting notice'') (word_pattern ''Meeting'')
   \<and> checkSubjectPattern (source_config\<lparr>SUBJECT_PATTERNS := Some holed_patterns\<rparr>)
       (js ''Meeting notice'')
       = \<lparr>isMatch = False, matchedPattern = None, checkedPatterns = [], allResults = [],
          matchMode = None, summary = None,
          match_error = Some (Thrown ''pattern.toString'')\<rparr>"
proof -
  have t: "pat_test (word_pattern ''notice'') (js ''Meeting notice'') = Inr True"
    using example_matches(3) by (simp add: matches_def)
  have m: "or_default (MATCH_MODE holed_patterns) (js ''any'') = js ''all''"
    "js ''all'' \<noteq> js ''any''"
    by (simp_all add: holed_patterns_def or_default_def js_def)
  have "checkMultiplePatterns holed_patterns (js ''Meeting notice'')
      = Inl (Thrown ''pattern.toString'')"
    using t m by (simp add: checkMultiplePatterns_def holed_patterns_def Let_def)
  then show ?thesis
    by (simp add: checkSubjectPattern_def checkSubjectPattern_try_def holed_patterns_def
        example_matches)
qed

text \<open>
  C10. With an empty pattern list (or none configured), \<open>checkMultiplePatterns\<close>
  returns \<open>isMatch = false\<close> in mode \<open>'any'\<close> and \<open>isMatch = true\<close> with no
  \<open>matchedPattern\<close> in mode \<open>'all'\<close>; \<open>checkSubjectPattern\<close> then reports every
  subject as a match in mode \<open>'all'\<close>.
\<close>

theorem empty_pattern_list:
  "(\<exists>r. checkMultiplePatterns
        \<lparr>ENABLE_MULTIPLE_PATTERNS = True, MATCH_MODE = Some (js ''any''), PATTERNS = Some []\<rparr> S
        = Inr r \<and> \<not> isMatch r)
   \<and> (\<exists>r. checkMultiplePatterns
        \<lparr>ENABLE_MULTIPLE_PATTERNS = True, MATCH_MODE = Some (js ''all''), PATTERNS = Some []\<rparr> S
        = Inr r \<and> isMatch r \<and> matchedPattern r = None)
   \<and> (\<exists>r. checkMultiplePatterns
        \<lparr>ENABLE_MULTIPLE_PATTERNS = True, MATCH_MODE = Some (js ''all''), PATTERNS = None\<rparr> S
        = Inr r \<and> isMatch r)
   \<and> isMatch (checkSubjectPattern
        (cfg\<lparr>SUBJECT_PATTERNS := Some \<lparr>ENABLE_MULTIPLE_PATTERNS = True,
               MATCH_MODE = Some (js ''all''), PATTERNS = Some []\<rparr>\<rparr>) S)"
  by (simp add: checkSubjectPattern_def checkSubjectPattern_try_def checkMultiplePatterns_def
      or_default_def final_result_def js_def)

subsection \<open>File names\<close>

declare decimal.simps [simp del]

declare probe.simps [simp del]

lemma probe_exhausted:
  assumes "lookup_fails f = (\<lambda>n. False)"
    and "\<forall>k. counter \<le> k \<and> k < 100 \<longrightarrow> baseName @ js ''_'' @ decimal k @ extension \<in> set (files f)"
    and "counter < 100"
  shows "probe baseName extension counter f = (Inr (baseName @ js ''_'' @ decimal 99 @ extension), f)"
  using assms
proof (induction baseName extension counter f rule: probe.induct)
  case (1 baseName extension counter f)
  show ?case
  proof (cases "counter + 1 < 100")
    case True
    with 1 show ?thesis
      by (subst probe.simps) (simp add: hasFileNamed_def Let_def)
  next
    case False
    with 1(4) have "counter = 99" by simp
    with 1 show ?thesis
      by (subst probe.simps) (simp add: hasFileNamed_def Let_def)
  qed
qed

lemma probe_cases:
  assumes "lookup_fails f = (\<lambda>n. False)" and "counter < 100"
  shows "\<exists>k. counter \<le> k \<and> k < 100
           \<and> probe baseName extension counter f = (Inr (baseName @ js ''_'' @ decimal k @ extension), f)"
  using assms(2)
proof (induction "99 - counter" arbitrary: counter)
  case 0
  then have "\<not> counter + 1 < 100" by simp
  then have "probe baseName extension counter f = (Inr (baseName @ js ''_'' @ decimal counter @ extension), f)"
    using assms(1) by (subst probe.simps) (simp add: hasFileNamed_def Let_def)
  with 0 show ?case by blast
next
  case (Suc n)
  then have lt: "counter + 1 < 100" and n: "n = 99 - (counter + 1)" by simp_all
  show ?case
  proof (cases "baseName @ js ''_'' @ decimal counter @ extension \<in> set (files f)")
    case True
    from Suc.hyps(1) [OF n lt] obtain k where k: "counter + 1 \<le> k" "k < 100"
        "probe baseName extension (counter + 1) f = (Inr (baseName @ js ''_'' @ decimal k @ extension), f)"
      by blast
    from True lt k(3) assms(1)
    have "probe baseName extension counter f = (Inr (baseName @ js ''_'' @ decimal k @ extension), f)"
      by (subst probe.simps) (simp add: hasFileNamed_def Let_def)
    with k show ?thesis by (intro exI [of _ k]) simp
  next
    case False
    with assms(1) have "probe baseName extension counter f = (Inr (baseName @ js ''_'' @ decimal counter @ extension), f)"
      by (subst probe.simps) (simp add: hasFileNamed_def Let_def)
    with Suc.prems show ?thesis by blast
  qed
qed

lemma split_nonempty: "split_str sep s \<noteq> []"
  by (induction s) (auto split: list.splits)

lemma join_snoc: "xs \<noteq> [] \<Longrightarrow> join_str sep (xs @ [y]) = join_str sep xs @ sep @ y"
  by (induction sep xs rule: join_str.induct) auto

lemma join_split: "join_str [sep] (split_str sep s) = s"
proof (induction s)
  case Nil
  then show ?case by simp
next
  case (Cons c s)
  then show ?case
    by (cases "split_str sep s"; cases "tl (split_str sep s)") (auto simp add: split_nonempty)
qed

lemma last_split: "sep \<notin> set (last (split_str sep s))"
  by (induction s) (auto simp add: split_nonempty split: list.splits)

lemma stem_extension:
  assumes "1 < length (split_str sep s)"
  shows "join_str [sep] (butlast (split_str sep s)) @ [sep] @ last (split_str sep s) = s"
proof -
  have "butlast (split_str sep s) \<noteq> []"
    using assms by (cases "split_str sep s") auto
  from join_snoc [OF this, of "[sep]" "last (split_str sep s)"] show ?thesis
    by (simp add: split_nonempty join_split)
qed

lemma decimal_digits: "set (decimal n) \<subseteq> {48 ..< 58}"
proof (induction n rule: decimal.induct)
  case (1 n)
  then show ?case
    by (subst decimal.simps) auto
qed

lemma decimal_nonempty: "decimal n \<noteq> []"
  by (subst decimal.simps) simp


lemma js_dot: "js ''.'' = [46]"
  by (simp add: js_def)

lemma ensure_cases:
  assumes "reliable f"
  shows "\<exists>n. ensureUniqueFilename clk name f = (Inr n, f)
     \<and> ((name \<notin> set (files f) \<and> n = name)
        \<or> (name \<in> set (files f) \<and> (\<exists>k. 1 \<le> k \<and> k < 100
             \<and> n = join_str (js ''.'') (if 1 < length (split_str 46 name)
                                          then butlast (split_str 46 name) else split_str 46 name)
                   @ js ''_'' @ decimal k
                   @ (if 1 < length (split_str 46 name) then js ''.'' @ last (split_str 46 name)
                      else []))))"
proof (cases "name \<in> set (files f)")
  case False
  with assms show ?thesis
    by (simp add: ensureUniqueFilename_def hasFileNamed_def reliable_def seq_def try_catch_def ret_def)
next
  case True
  from assms have l: "lookup_fails f = (\<lambda>n. False)" by (simp add: reliable_def)
  from probe_cases [OF l, of 1 "join_str (js ''.'') (if 1 < length (split_str 46 name)
                                          then butlast (split_str 46 name) else split_str 46 name)"
      "if 1 < length (split_str 46 name) then js ''.'' @ last (split_str 46 name) else []"]
  obtain k where "1 \<le> k" "k < 100" "probe (join_str (js ''.'') (if 1 < length (split_str 46 name)
                                          then butlast (split_str 46 name) else split_str 46 name))
      (if 1 < length (split_str 46 name) then js ''.'' @ last (split_str 46 name) else []) 1 f
     = (Inr (join_str (js ''.'') (if 1 < length (split_str 46 name)
                                          then butlast (split_str 46 name) else split_str 46 name)
                   @ js ''_'' @ decimal k
                   @ (if 1 < length (split_str 46 name) then js ''.'' @ last (split_str 46 name)
                      else [])), f)"
    by auto
  with True l show ?thesis
    by (auto simp add: ensureUniqueFilename_def hasFileNamed_def seq_def try_catch_def ret_def Let_def)
qed

lemma report_names:
  assumes "formatted_time clk = Inr t"
  shows "generateSimpleFilename clk 0 (js ''report.pdf'') = js ''report.pdf''"
    and "generateSimpleFilename clk 1 (js ''report.pdf'') = js ''report_2.pdf''"
  using assms
  by (simp_all add: generateSimpleFilename_def trim_def replace_illegal_def is_space_def js_def
      decimal.simps Let_def)

lemma report_unique:
  assumes "reliable f"
  shows "\<exists>n. ensureUniqueFilename clk (js ''report.pdf'') f = (Inr n, f)
     \<and> ((js ''report.pdf'' \<notin> set (files f) \<and> n = js ''report.pdf'')
        \<or> (\<exists>k. n = js ''report_'' @ decimal k @ js ''.pdf''))"
  using ensure_cases [OF assms, of clk "js ''report.pdf''"]
  by (auto simp add: js_def)

lemma report_2_unique:
  assumes "reliable f"
  shows "\<exists>n. ensureUniqueFilename clk (js ''report_2.pdf'') f = (Inr n, f)
     \<and> ((js ''report_2.pdf'' \<notin> set (files f) \<and> n = js ''report_2.pdf'')
        \<or> (\<exists>k. n = js ''report_2_'' @ decimal k @ js ''.pdf''))"
  using ensure_cases [OF assms, of clk "js ''report_2.pdf''"]
  by (auto simp add: js_def)


lemma decimal_99: "decimal 99 = js ''99''"
  by (simp add: decimal.simps js_def)

text \<open>
  C7. In a folder that holds \<open>a.txt\<close> and \<open>a_1.txt\<close> to \<open>a_99.txt\<close>, with every
  Drive call succeeding, \<open>ensureUniqueFilename\<close> for \<open>a.txt\<close> returns \<open>a_99.txt\<close>, the
  last numeric candidate it probed, which the folder already holds: no time stamp is
  appended when the probes are exhausted.
\<close>

theorem numeric_suffix_exhausted:
  "ensureUniqueFilename clk (js ''a.txt'') crowded_folder = (Inr (js ''a_99.txt''), crowded_folder)
   \<and> js ''a_99.txt'' \<in> set (files crowded_folder)"
proof -
  have in_folder: "js ''a'' @ js ''_'' @ decimal k @ js ''.'' @ js ''txt'' \<in> set (files crowded_folder)"
    if "1 \<le> k" "k < 100" for k
    using that by (simp add: crowded_folder_def js_def)
  have l: "lookup_fails crowded_folder = (\<lambda>n. False)"
    by (simp add: crowded_folder_def)
  have p: "probe (js ''a'') (js ''.'' @ js ''txt'') 1 crowded_folder
      = (Inr (js ''a'' @ js ''_'' @ decimal 99 @ js ''.'' @ js ''txt''), crowded_folder)"
    by (rule probe_exhausted [OF l]) (simp_all add: in_folder)
  have n: "js ''a'' @ js ''_'' @ decimal 99 @ js ''.'' @ js ''txt'' = js ''a_99.txt''"
    by (simp add: decimal_99) (simp add: js_def)
  have s: "split_str 46 (js ''a.txt'') = [js ''a'', js ''txt'']"
    by (simp add: js_def)
  have "js ''a.txt'' \<in> set (files crowded_folder)"
    by (simp add: crowded_folder_def)
  with p n s l have "ensureUniqueFilename clk (js ''a.txt'') crowded_folder = (Inr (js ''a_99.txt''), crowded_folder)"
    by (simp add: ensureUniqueFilename_def hasFileNamed_def seq_def try_catch_def ret_def)
  moreover from in_folder [of 99] n have "js ''a_99.txt'' \<in> set (files crowded_folder)"
    by simp
  ultimately show ?thesis by simp
qed

lemma endsWith_append: "endsWith (xs @ w) w"
  by (simp add: endsWith_def)

lemma no_underscore: "decimal k \<noteq> 50 # 95 # rest"
proof
  assume "decimal k = 50 # 95 # rest"
  then have "95 \<in> set (decimal k)" by simp
  with decimal_digits [of k] show False by auto
qed

lemma report_distinct:
  "js ''report.pdf'' \<noteq> js ''report_2_'' @ decimal k' @ js ''.pdf''"
  "js ''report_'' @ decimal k @ js ''.pdf'' \<noteq> js ''report_2_'' @ decimal k' @ js ''.pdf''"
  using no_underscore [of k "decimal k'"] by (simp_all add: js_def)

lemma report_ends:
  "endsWith (js ''report.pdf'') (js ''.pdf'')"
  "endsWith (js ''report_2.pdf'') (js ''.pdf'')"
  "endsWith (js ''report_'' @ decimal k @ js ''.pdf'') (js ''.pdf'')"
  "endsWith (js ''report_2_'' @ decimal k @ js ''.pdf'') (js ''.pdf'')"
  using endsWith_append [of "js ''report_'' @ decimal k" "js ''.pdf''"]
    endsWith_append [of "js ''report_2_'' @ decimal k" "js ''.pdf''"]
  by (simp_all add: endsWith_def js_def)

lemma two_reports:
  assumes t: "formatted_time clk = Inr t" and f: "reliable f"
    and a: "att_name a1 = js ''report.pdf''" "att_name a2 = js ''report.pdf''"
  shows "\<exists>n1 n2. processAttachments_forEach clk [a1, a2] 0 f
           = (Inr [\<lparr>originalName = js ''report.pdf'', savedName = Some n1,
                     info_size = att_size a1, info_error = None\<rparr>,
                   \<lparr>originalName = js ''report.pdf'', savedName = Some n2,
                     info_size = att_size a2, info_error = None\<rparr>],
              f\<lparr>files := files f @ [n1, n2]\<rparr>)
         \<and> n1 \<noteq> n2 \<and> endsWith n1 (js ''.pdf'') \<and> endsWith n2 (js ''.pdf'')"
proof -
  from report_unique [OF f, of clk] obtain n1 where
    n1: "ensureUniqueFilename clk (js ''report.pdf'') f = (Inr n1, f)"
      "n1 = js ''report.pdf'' \<or> (\<exists>k. n1 = js ''report_'' @ decimal k @ js ''.pdf'')"
    by blast
  let ?f1 = "f\<lparr>files := files f @ [n1]\<rparr>"
  from f have f1: "reliable ?f1" by (simp add: reliable_def)
  from report_2_unique [OF f1, of clk] obtain n2 where
    n2: "ensureUniqueFilename clk (js ''report_2.pdf'') ?f1 = (Inr n2, ?f1)"
      "(js ''report_2.pdf'' \<notin> set (files ?f1) \<and> n2 = js ''report_2.pdf'')
        \<or> (\<exists>k. n2 = js ''report_2_'' @ decimal k @ js ''.pdf'')"
    by blast
  from n1(2) n2(2) have d: "n1 \<noteq> n2"
    using report_distinct by auto
  from n1(2) have e1: "endsWith n1 (js ''.pdf'')"
    using report_ends by auto
  from n2(2) have e2: "endsWith n2 (js ''.pdf'')"
    using report_ends by auto
  from f have c: "create_fails f = (\<lambda>n. False)" by (simp add: reliable_def)
  have "processAttachments_forEach clk [a1, a2] 0 f
           = (Inr [\<lparr>originalName = js ''report.pdf'', savedName = Some n1,
                     info_size = att_size a1, info_error = None\<rparr>,
                   \<lparr>originalName = js ''report.pdf'', savedName = Some n2,
                     info_size = att_size a2, info_error = None\<rparr>],
              f\<lparr>files := files f @ [n1, n2]\<rparr>)"
    using n1(1) n2(1) a c report_names [OF t]
    by (simp add: saveAttachmentToDrive_def createFile_def seq_def try_catch_def ret_def)
  with d e1 e2 show ?thesis by blast
qed


lemma single_part:
  assumes "\<not> 1 < length (split_str sep s)"
  shows "join_str [sep] (split_str sep s) = s \<and> sep \<notin> set s"
proof -
  from assms split_nonempty [of sep s] obtain part where part: "split_str sep s = [part]"
    by (cases "split_str sep s") auto
  with join_split [of sep s] have "part = s" by simp
  with part last_split [of sep s] show ?thesis by (simp add: join_split)
qed

lemma trim_nonempty: "trim name \<noteq> [] \<Longrightarrow> name \<noteq> []"
  by (auto simp add: trim_def)

lemma suffix_inserted:
  assumes "formatted_time clk = Inr t" and "trim name \<noteq> []" and "0 < index"
  shows "\<exists>stem ext. trim (replace_illegal name) = stem @ ext
           \<and> (if ext = [] then 46 \<notin> set stem else hd ext = 46 \<and> 46 \<notin> set (tl ext))
           \<and> generateSimpleFilename clk index name = stem @ js ''_'' @ decimal (index + 1) @ ext"
proof (cases "1 < length (split_str 46 (trim (replace_illegal name)))")
  case True
  let ?parts = "split_str 46 (trim (replace_illegal name))"
  from stem_extension [OF True]
  have "trim (replace_illegal name) = join_str [46] (butlast ?parts) @ (46 # last ?parts)"
    by simp
  moreover have "46 \<notin> set (last ?parts)"
    by (rule last_split)
  moreover have "generateSimpleFilename clk index name
      = join_str [46] (butlast ?parts) @ js ''_'' @ decimal (index + 1) @ (46 # last ?parts)"
    using assms True trim_nonempty [OF assms(2)]
    by (simp add: generateSimpleFilename_def Let_def js_dot)
  ultimately show ?thesis
    by (intro exI [of _ "join_str [46] (butlast ?parts)"] exI [of _ "46 # last ?parts"]) simp
next
  case False
  let ?parts = "split_str 46 (trim (replace_illegal name))"
  from single_part [OF False]
  have j: "join_str [46] ?parts = trim (replace_illegal name)"
    and d: "46 \<notin> set (trim (replace_illegal name))"
    by simp_all
  have "generateSimpleFilename clk index name
      = trim (replace_illegal name) @ js ''_'' @ decimal (index + 1) @ []"
    using assms False j trim_nonempty [OF assms(2)]
    by (simp add: generateSimpleFilename_def Let_def js_dot)
  with d show ?thesis
    by (intro exI [of _ "trim (replace_illegal name)"] exI [of _ "[]"]) simp
qed

text \<open>
  C8, as amended. With a time formatting that succeeds: for a name that is not blank
  the candidate of the first attachment (index 0) is the sanitized original name; for
  every later attachment (index above 0) the position \<open>index + 1\<close> is inserted with an
  underscore before the extension (the part from the last dot on), whether or not
  another attachment has the same name; and saving two attachments that are both named
  \<open>report.pdf\<close> into one folder whose calls succeed gives two different stored names
  that both end in \<open>.pdf\<close>.
\<close>

theorem suffix_by_position:
  assumes "formatted_time clk = Inr t"
  shows "(trim name \<noteq> [] \<longrightarrow> generateSimpleFilename clk 0 name = trim (replace_illegal name))
     \<and> (trim name \<noteq> [] \<and> 0 < index \<longrightarrow>
          (\<exists>stem ext. trim (replace_illegal name) = stem @ ext
             \<and> (if ext = [] then 46 \<notin> set stem else hd ext = 46 \<and> 46 \<notin> set (tl ext))
             \<and> generateSimpleFilename clk index name
                 = stem @ js ''_'' @ decimal (index + 1) @ ext))
     \<and> (reliable f \<and> att_name a1 = js ''report.pdf'' \<and> att_name a2 = js ''report.pdf'' \<longrightarrow>
          (\<exists>n1 n2. processAttachments_forEach clk [a1, a2] 0 f
               = (Inr [\<lparr>originalName = js ''report.pdf'', savedName = Some n1,
                         info_size = att_size a1, info_error = None\<rparr>,
                       \<lparr>originalName = js ''report.pdf'', savedName = Some n2,
                         info_size = att_size a2, info_error = None\<rparr>],
                  f\<lparr>files := files f @ [n1, n2]\<rparr>)
             \<and> n1 \<noteq> n2 \<and> endsWith n1 (js ''.pdf'') \<and> endsWith n2 (js ''.pdf'')))"
proof -
  have "generateSimpleFilename clk 0 name = trim (replace_illegal name)" if "trim name \<noteq> []"
    using that assms trim_nonempty [OF that] by (simp add: generateSimpleFilename_def)
  with suffix_inserted [OF assms, of name index] two_reports [OF assms, of f a1 a2]
  show ?thesis by blast
qed

theorem suffix_by_position_witness:
  "trim (js ''b.pdf'') \<noteq> [] \<and> reliable report_folder
   \<and> att_name report_attachment = js ''report.pdf''
   \<and> generateSimpleFilename example_clock 0 (js ''b.pdf'') = trim (replace_illegal (js ''b.pdf''))
   \<and> (\<exists>stem ext. trim (replace_illegal (js ''b.pdf'')) = stem @ ext
          \<and> (if ext = [] then 46 \<notin> set stem else hd ext = 46 \<and> 46 \<notin> set (tl ext))
          \<and> generateSimpleFilename example_clock 1 (js ''b.pdf'')
              = stem @ js ''_'' @ decimal (1 + 1) @ ext)
   \<and> (\<exists>n1 n2. processAttachments_forEach example_clock [report_attachment, report_attachment] 0
            report_folder
          = (Inr [\<lparr>originalName = js ''report.pdf'', savedName = Some n1,
                    info_size = att_size report_attachment, info_error = None\<rparr>,
                  \<lparr>originalName = js ''report.pdf'', savedName = Some n2,
                    info_size = att_size report_attachment, info_error = None\<rparr>],
             report_folder\<lparr>files := files report_folder @ [n1, n2]\<rparr>)
        \<and> n1 \<noteq> n2 \<and> endsWith n1 (js ''.pdf'') \<and> endsWith n2 (js ''.pdf''))"
proof -
  have t: "formatted_time example_clock = Inr (js ''093000'')"
    by (simp add: example_clock_def)
  have b: "trim (js ''b.pdf'') \<noteq> []"
    by (simp add: trim_def is_space_def js_def)
  have r: "reliable report_folder"
    by (simp add: reliable_def report_folder_def)
  have a: "att_name report_attachment = js ''report.pdf''"
    by (simp add: report_attachment_def)
  have i: "(0::nat) < 1"
    by simp
  from suffix_by_position [OF t, of "js ''b.pdf''" 1 report_folder report_attachment
      report_attachment] b r a i
  show ?thesis by blast
qed

text \<open>
  C8 as stated fails: of the two attachments \<open>a.pdf\<close> and \<open>b.pdf\<close>, which share no
  name, the second gets the candidate \<open>b_2.pdf\<close>, where the claim gives \<open>b.pdf\<close>.
\<close>

theorem suffix_without_shared_name:
  "generateSimpleFilename example_clock 1 ([js ''a.pdf'', js ''b.pdf''] ! 1) = js ''b_2.pdf''
   \<and> spec_candidate_name [js ''a.pdf'', js ''b.pdf''] 1 = js ''b.pdf''
   \<and> generateSimpleFilename example_clock 1 ([js ''a.pdf'', js ''b.pdf''] ! 1)
       \<noteq> spec_candidate_name [js ''a.pdf'', js ''b.pdf''] 1"
  by (simp add: generateSimpleFilename_def spec_candidate_name_def example_clock_def trim_def
      replace_illegal_def is_space_def js_def decimal.simps Let_def)

subsection \<open>The email body in Slack\<close>

declare send_parts.simps [simp del]

lemma send_parts_accepting:
  assumes "accepting s"
  shows "\<exists>s' cs. send_parts ref body n s = (Inr (), s') \<and> accepting s'
           \<and> continuation_bodies s' = continuation_bodies s @ cs
           \<and> concat cs = body \<and> list_all (\<lambda>c. c \<noteq> [] \<and> length c \<le> 3500) cs"
  using assms
proof (induction "length body" arbitrary: body n s rule: less_induct)
  case less
  show ?case
  proof (cases "body = []")
    case True
    with less.prems show ?thesis
      by (subst send_parts.simps) simp
  next
    case False
    let ?chunk = "take 3500 body"
    let ?rest = "drop 3500 body"
    let ?msg = "\<lparr>icon_emoji = '':speech_balloon:'',
                 post_text = (if n = 1 then [8627, 32] @ ref @ FULL_BODY_NOTE else []),
                 post_title = (if length ?rest = 0 then LAST_PART
                               else PART_OPEN @ decimal n @ PART_CLOSE),
                 post_body = ?chunk\<rparr>"
    let ?s1 = "s\<lparr>requests := requests s @ [(?msg, 200)]\<rparr>"
    have chunk: "substring body 0 (min 3500 (length body)) = ?chunk"
      by (simp add: substring_def min_def)
    have rest: "substring_from body (length ?chunk) = ?rest"
      by (simp add: substring_from_def min_def)
    from less.prems have acc1: "accepting ?s1"
      by (simp add: accepting_def configured_def)
    from False have "length ?rest < length body" by simp
    from less.hyps [OF this acc1] obtain s' cs where
      ih: "send_parts ref ?rest (n + 1) ?s1 = (Inr (), s')" "accepting s'"
        "continuation_bodies s' = continuation_bodies ?s1 @ cs" "concat cs = ?rest"
        "list_all (\<lambda>c. c \<noteq> [] \<and> length c \<le> 3500) cs"
      by blast
    have step: "send_parts ref body n s = send_parts ref ?rest (n + 1) ?s1"
      using False less.prems
      by (subst send_parts.simps)
        (auto simp add: substring_def substring_from_def fetch_def accepting_def Let_def min_def)
    have cb: "continuation_bodies ?s1 = continuation_bodies s @ [?chunk]"
      by (simp add: continuation_bodies_def)
    from False have "?chunk \<noteq> []" by simp
    with ih step cb show ?thesis
      by (intro exI [of _ s'] exI [of _ "?chunk # cs"]) simp
  qed
qed


lemma notify_accepting:
  assumes "accepting s"
  shows "\<exists>s' cs. notify cfg subject ref body s = (Inr (), s')
           \<and> continuation_bodies s' = continuation_bodies s @ cs
           \<and> concat cs = (if length (formatEmailBody cfg body) > 1000
                          then formatEmailBody cfg body else [])
           \<and> list_all (\<lambda>c. c \<noteq> [] \<and> length c \<le> 3500) cs"
proof -
  let ?fb = "formatEmailBody cfg body"
  let ?s1 = "s\<lparr>requests := requests s @ [(buildSlackMessage subject ?fb, 200)]\<rparr>"
  from assms have acc1: "accepting ?s1"
    by (simp add: accepting_def configured_def)
  have cb: "continuation_bodies ?s1 = continuation_bodies s"
    by (simp add: continuation_bodies_def buildSlackMessage_def Let_def)
  show ?thesis
  proof (cases "length ?fb > 1000")
    case True
    from send_parts_accepting [OF acc1, of ref ?fb 1] obtain s' cs where
      sp: "send_parts ref ?fb 1 ?s1 = (Inr (), s')"
        "continuation_bodies s' = continuation_bodies ?s1 @ cs" "concat cs = ?fb"
        "list_all (\<lambda>c. c \<noteq> [] \<and> length c \<le> 3500) cs"
      by blast
    from True have ne: "?fb \<noteq> []" by auto
    have "notify cfg subject ref body s = (Inr (), s')"
      using assms True ne sp(1)
      by (simp add: notify_def sendSlackNotification_def sendLongEmailBody_def getWebhookUrl_def
          fetch_def accepting_def configured_def seq_def try_catch_def ret_def
          split: option.splits)
    with sp cb True show ?thesis by auto
  next
    case False
    have "notify cfg subject ref body s = (Inr (), ?s1)"
      using assms False
      by (simp add: notify_def sendSlackNotification_def getWebhookUrl_def
          fetch_def accepting_def configured_def seq_def try_catch_def ret_def
          split: option.splits)
    with cb False show ?thesis by auto
  qed
qed

lemma collapse_no_newline: "10 \<notin> set s \<Longrightarrow> collapse_blank_lines s = s"
  by (induction s) (simp_all add: Let_def)

lemma lastIndexOf_absent:
  assumes "w \<noteq> []" and "hd w \<notin> set s"
  shows "lastIndexOf s w = - 1"
proof -
  have "take (length w) (drop i s) \<noteq> w" for i
  proof
    assume eq: "take (length w) (drop i s) = w"
    with assms(1) have "hd w \<in> set (take (length w) (drop i s))"
      by (metis hd_in_set)
    then have "hd w \<in> set s"
      by (meson in_set_dropD in_set_takeD)
    with assms(2) show False by simp
  qed
  then have "filter (\<lambda>i. take (length w) (drop i s) = w) (rev [0 ..< Suc (length s) - length w]) = []"
    by simp
  then show ?thesis
    by (simp add: lastIndexOf_def)
qed

lemma format_letters:
  assumes "0 < n" and "n \<le> 20000"
  shows "formatEmailBody source_config (replicate n 97) = replicate n 97"
proof -
  have t: "trim (replicate n 97) = replicate n 97"
    by (simp add: trim_def is_space_def dropWhile_replicate)
  have c: "collapse_blank_lines (replicate n 97) = replicate n 97"
    by (rule collapse_no_newline) simp
  from assms t c show ?thesis
    by (simp add: formatEmailBody_def source_config_def Let_def)
qed

lemma format_truncates:
  "formatEmailBody source_config (replicate 20001 97)
     = replicate 20000 97 @ js ''...'' @ [10, 10] @ OMITTED_MARK"
proof -
  have t: "trim (replicate 20001 97) = replicate 20001 97"
    by (simp add: trim_def is_space_def dropWhile_replicate)
  have c: "collapse_blank_lines (replicate 20001 97) = replicate 20001 97"
    by (rule collapse_no_newline) simp
  have s: "substring (replicate 20001 97) 0 20000 = replicate 20000 97"
    by (simp add: substring_def)
  have l: "lastIndexOf (replicate 20000 97) [12290] = - 1"
    "lastIndexOf (replicate 20000 97) (js ''.'') = - 1"
    "lastIndexOf (replicate 20000 97) [10, 10] = - 1"
    by (rule lastIndexOf_absent; simp add: js_def)+
  from t c s l show ?thesis
    by (simp add: formatEmailBody_def source_config_def Let_def)
qed

lemma format_trims:
  "formatEmailBody source_config (32 # replicate 1001 97) = replicate 1001 97"
proof -
  have t: "trim (32 # replicate 1001 97) = replicate 1001 97"
    by (simp add: trim_def is_space_def dropWhile_replicate dropWhile_append)
  have c: "collapse_blank_lines (32 # replicate 1001 97) = 32 # replicate 1001 97"
    by (rule collapse_no_newline) simp
  from t c show ?thesis
    by (simp add: formatEmailBody_def source_config_def Let_def)
qed


lemma sendLong_accepting:
  assumes "accepting s"
  shows "\<exists>s' cs. sendLongEmailBody ref fullBody s = (Inr (), s')
           \<and> continuation_bodies s' = continuation_bodies s @ cs
           \<and> concat cs = fullBody \<and> list_all (\<lambda>c. c \<noteq> [] \<and> length c \<le> 3500) cs"
proof -
  from send_parts_accepting [OF assms, of ref fullBody 1] obtain s' cs where
    sp: "send_parts ref fullBody 1 s = (Inr (), s')"
      "continuation_bodies s' = continuation_bodies s @ cs" "concat cs = fullBody"
      "list_all (\<lambda>c. c \<noteq> [] \<and> length c \<le> 3500) cs"
    by blast
  from assms sp(1) have "sendLongEmailBody ref fullBody s = (Inr (), s')"
    by (simp add: sendLongEmailBody_def getWebhookUrl_def accepting_def configured_def seq_def
        try_catch_def split: option.splits)
  with sp show ?thesis by blast
qed

text \<open>
  C6, as amended. On a webhook that accepts every request: \<open>sendLongEmailBody\<close> sends
  the string it is given as parts of at most 3500 code units, none empty, whose bodies
  concatenated in the order sent are that string; and the notification of a message
  sends such parts exactly when the body as \<open>formatEmailBody\<close> returns it is longer
  than 1000 code units, and then the parts concatenated are the formatted body (the
  original body only where formatting leaves it unchanged).
\<close>

theorem continuation_round_trip:
  assumes "accepting s"
  shows "(\<exists>s' cs. sendLongEmailBody ref fullBody s = (Inr (), s')
            \<and> continuation_bodies s' = continuation_bodies s @ cs
            \<and> list_all (\<lambda>c. c \<noteq> [] \<and> length c \<le> 3500) cs
            \<and> concat cs = fullBody)
       \<and> (\<exists>s' cs. notify cfg subject ref body s = (Inr (), s')
            \<and> continuation_bodies s' = continuation_bodies s @ cs
            \<and> list_all (\<lambda>c. c \<noteq> [] \<and> length c \<le> 3500) cs
            \<and> concat cs = (if length (formatEmailBody cfg body) > 1000
                           then formatEmailBody cfg body else []))"
  using sendLong_accepting [OF assms, of ref fullBody] notify_accepting [OF assms, of cfg subject ref body]
  by blast

theorem continuation_round_trip_witness:
  "accepting open_webhook
   \<and> formatEmailBody source_config (replicate 4000 97) = replicate 4000 97
   \<and> (\<exists>s' cs. notify source_config (js ''Meeting notice'') reference_text (replicate 4000 97)
            open_webhook = (Inr (), s')
          \<and> continuation_bodies s' = cs
          \<and> list_all (\<lambda>c. c \<noteq> [] \<and> length c \<le> 3500) cs
          \<and> concat cs = replicate 4000 97)"
proof -
  have a: "accepting open_webhook"
    by (simp add: accepting_def configured_def open_webhook_def js_def)
  have e: "continuation_bodies open_webhook = []"
    by (simp add: continuation_bodies_def open_webhook_def)
  have f: "formatEmailBody source_config (replicate 4000 97) = replicate 4000 97"
    by (rule format_letters) simp_all
  from continuation_round_trip [OF a, of reference_text "[]" source_config "js ''Meeting notice''"
      "replicate 4000 97"] a e f
  show ?thesis by simp
qed

text \<open>
  C6 as stated fails. A body of 20001 letters is longer than every threshold, and the
  parts sent are 20000 letters followed by the omission marker; a body of a space and
  1001 letters is sent without its space.
\<close>

theorem continuation_not_original:
  "length (replicate 20001 (97::nat)) > BODY_PREVIEW_LENGTH source_config
   \<and> concat (continuation_bodies (snd (notify source_config (js ''Meeting notice'') reference_text
         (replicate 20001 97) open_webhook)))
       = replicate 20000 97 @ js ''...'' @ [10, 10] @ OMITTED_MARK
   \<and> concat (continuation_bodies (snd (notify source_config (js ''Meeting notice'') reference_text
         (replicate 20001 97) open_webhook)))
       \<noteq> replicate 20001 97
   \<and> length (32 # replicate 1001 (97::nat)) > 1000
   \<and> concat (continuation_bodies (snd (notify source_config (js ''Meeting notice'') reference_text
         (32 # replicate 1001 97) open_webhook)))
       = replicate 1001 97
   \<and> concat (continuation_bodies (snd (notify source_config (js ''Meeting notice'') reference_text
         (32 # replicate 1001 97) open_webhook)))
       \<noteq> 32 # replicate 1001 97"
proof -
  have a: "accepting open_webhook"
    by (simp add: accepting_def configured_def open_webhook_def js_def)
  have e: "continuation_bodies open_webhook = []"
    by (simp add: continuation_bodies_def open_webhook_def)
  from notify_accepting [OF a, of source_config "js ''Meeting notice''" reference_text
      "replicate 20001 97"] e
  have long: "concat (continuation_bodies (snd (notify source_config (js ''Meeting notice'')
      reference_text (replicate 20001 97) open_webhook)))
       = replicate 20000 97 @ js ''...'' @ [10, 10] @ OMITTED_MARK"
    by (auto simp add: format_truncates)
  from notify_accepting [OF a, of source_config "js ''Meeting notice''" reference_text
      "32 # replicate 1001 97"] e
  have spaced: "concat (continuation_bodies (snd (notify source_config (js ''Meeting notice'')
      reference_text (32 # replicate 1001 97) open_webhook)))
       = replicate 1001 97"
    by (auto simp add: format_trims)
  have "length (replicate 20000 (97::nat) @ js ''...'' @ [10, 10] @ OMITTED_MARK)
      \<noteq> length (replicate 20001 (97::nat))"
    by (simp add: js_def OMITTED_MARK_def)
  then have d1: "replicate 20000 (97::nat) @ js ''...'' @ [10, 10] @ OMITTED_MARK
      \<noteq> replicate 20001 97"
    by metis
  have "length (replicate 1001 (97::nat)) \<noteq> length (32 # replicate 1001 (97::nat))"
    by simp
  then have d2: "replicate 1001 (97::nat) \<noteq> 32 # replicate 1001 97"
    by metis
  from long spaced d1 d2 show ?thesis
    by (simp add: source_config_def)
qed

subsection \<open>The run\<close>

lemma quiet_refl: "extends_quietly s s"
  by (simp add: extends_quietly_def)

lemma quiet_trans: "extends_quietly s s' \<Longrightarrow> extends_quietly s' s'' \<Longrightarrow> extends_quietly s s''"
  by (auto simp add: extends_quietly_def)

lemma fetch_quiet:
  assumes "icon_emoji payload \<noteq> '':bar_chart:''"
  shows "extends_quietly s (snd (fetch payload s))"
  using assms by (auto simp add: fetch_def extends_quietly_def split: sum.splits)

lemma send_parts_quiet: "extends_quietly s (snd (send_parts ref body n s))"
proof (induction "length body" arbitrary: body n s rule: less_induct)
  case less
  show ?case
  proof (cases "body = []")
    case True
    then show ?thesis
      by (subst send_parts.simps) (simp add: quiet_refl)
  next
    case False
    let ?chunk = "substring body 0 (min 3500 (length body))"
    let ?rest = "substring_from body (length ?chunk)"
    let ?msg = "\<lparr>icon_emoji = '':speech_balloon:'',
                 post_text = (if n = 1 then [8627, 32] @ ref @ FULL_BODY_NOTE else []),
                 post_title = (if length ?rest = 0 then LAST_PART
                               else PART_OPEN @ decimal n @ PART_CLOSE),
                 post_body = ?chunk\<rparr>"
    have q1: "extends_quietly s (snd (fetch ?msg s))"
      by (rule fetch_quiet) simp
    from False have "length ?rest < length body"
      by (simp add: substring_def substring_from_def)
    note ih = less.hyps [OF this, of "snd (fetch ?msg s)" "n + 1"]
    show ?thesis
    proof (cases "fetch ?msg s")
      case (Pair x s1)
      with q1 ih have "extends_quietly s s1"
        and "extends_quietly s1 (snd (send_parts ref ?rest (n + 1) s1))"
        by simp_all
      then have "extends_quietly s (snd (send_parts ref ?rest (n + 1) s1))"
        by (rule quiet_trans)
      with Pair False \<open>extends_quietly s s1\<close> show ?thesis
        by (subst send_parts.simps) (simp add: Let_def split: sum.splits)
    qed
  qed
qed

lemma notify_quiet:
  "\<exists>s'. notify cfg subject ref body s = (Inr (), s') \<and> extends_quietly s s'"
proof -
  let ?fb = "formatEmailBody cfg body"
  let ?msg = "buildSlackMessage subject ?fb"
  have q1: "extends_quietly s (snd (fetch ?msg s))"
    by (rule fetch_quiet) (simp add: buildSlackMessage_def Let_def)
  obtain x s1 where f: "fetch ?msg s = (x, s1)" by (cases "fetch ?msg s")
  with q1 have q: "extends_quietly s s1" by simp
  from send_parts_quiet [of s1 ref ?fb 1] q have q2: "extends_quietly s (snd (send_parts ref ?fb 1 s1))"
    by (rule quiet_trans [rotated])
  obtain y s2 where sp: "send_parts ref ?fb 1 s1 = (y, s2)" by (cases "send_parts ref ?fb 1 s1")
  from q have ws: "webhook_url s1 = webhook_url s" by (simp add: extends_quietly_def)
  from f q q2 sp ws show ?thesis
    by (auto simp add: notify_def sendSlackNotification_def sendLongEmailBody_def getWebhookUrl_def
        seq_def try_catch_def ret_def throw_def quiet_refl split: sum.splits option.splits)
qed


lemma forEach_total:
  "\<exists>infos f'. processAttachments_forEach clk atts index f = (Inr infos, f')"
proof (induction atts arbitrary: index f)
  case Nil
  then show ?case by (simp add: ret_def)
next
  case (Cons att atts)
  obtain x f1 where s: "saveAttachmentToDrive clk att index f = (x, f1)"
    by (cases "saveAttachmentToDrive clk att index f")
  from Cons [of "index + 1" f1] obtain infos f' where
    "processAttachments_forEach clk atts (index + 1) f1 = (Inr infos, f')" by blast
  with s show ?case
    by (cases x) (simp_all add: seq_def try_catch_def ret_def)
qed

lemma attachment_step_total:
  "\<exists>infos w'. attachment_step clk atts w = (Inr infos, w') \<and> ledger w' = ledger w
      \<and> chat w' = chat w \<and> drive_available w' = drive_available w"
proof (cases "drive_available w \<and> atts \<noteq> []")
  case True
  from forEach_total [of clk atts 0 "drive w"] obtain infos f' where
    "processAttachments_forEach clk atts 0 (drive w) = (Inr infos, f')" by blast
  with True show ?thesis
    by (simp add: attachment_step_def processAttachments_def on_drive_def try_catch_def)
next
  case False
  then show ?thesis
    by (auto simp add: attachment_step_def processAttachments_def try_catch_def ret_def)
qed

lemma processMessage_effect:
  "\<exists>w'. processMessage cfg clk m w
          = (Inr (gettable m \<and> isMatch (checkSubjectPattern cfg (msg_subject m))), w')
     \<and> ledger w' = ledger w \<and> drive_available w' = drive_available w
     \<and> extends_quietly (chat w) (chat w')"
proof (cases "gettable m \<and> isMatch (checkSubjectPattern cfg (msg_subject m))")
  case False
  then show ?thesis
    by (auto simp add: processMessage_def processMessage_try_def gettable_def msg_get_def seq_def
        try_catch_def ret_def throw_def quiet_refl)
next
  case True
  from attachment_step_total [of clk "msg_attachments m" w] obtain infos w1 where
    a: "attachment_step clk (msg_attachments m) w = (Inr infos, w1)" "ledger w1 = ledger w"
      "chat w1 = chat w" "drive_available w1 = drive_available w" by blast
  from notify_quiet [of cfg "msg_subject m" "referenceText (msg_date m)" "msg_body m" "chat w1"]
  obtain s' where
    n: "notify cfg (msg_subject m) (referenceText (msg_date m)) (msg_body m) (chat w1) = (Inr (), s')"
      "extends_quietly (chat w1) s'" by blast
  from True a n have "processMessage cfg clk m w = (Inr True, w1\<lparr>chat := s'\<rparr>)"
    by (simp add: processMessage_def processMessage_try_def gettable_def msg_get_def seq_def
        try_catch_def ret_def on_chat_def)
  with True a n show ?thesis by simp
qed


lemma already_total: "\<exists>b. isMessageAlreadyProcessed m st = (Inr b, st)"
  by (auto simp add: isMessageAlreadyProcessed_def isMessageProcessedInSheet_def
        isMessageProcessedInSheet_try_def sheet_defs prog_defs
        split: sum.splits prod.splits if_splits)

lemma mark_total: "\<exists>st'. markMessageProcessedInSheet m now st = (Inr (), st')"
  by (auto simp add: markMessageProcessedInSheet_def try_catch_def ret_def
        split: sum.splits prod.splits)

lemma callback_effect:
  "\<exists>r'. message_callback cfg clk now m r = (Inr (), r')
     \<and> checkedCount r' = checkedCount r + 1
     \<and> processedCount r'
         = processedCount r + (if outcome cfg m (ledger (the_world r)) = Processed then 1 else 0)
     \<and> errorCount r'
         = errorCount r + (if outcome cfg m (ledger (the_world r)) = Raised then 1 else 0)
     \<and> ledger (the_world r') = ledger_after cfg now m (ledger (the_world r))
     \<and> extends_quietly (chat (the_world r)) (chat (the_world r'))"
proof -
  obtain b where a: "isMessageAlreadyProcessed m (ledger (the_world r)) = (Inr b, ledger (the_world r))"
    using already_total by blast
  obtain w' where p: "processMessage cfg clk m (the_world r)
          = (Inr (gettable m \<and> isMatch (checkSubjectPattern cfg (msg_subject m))), w')"
     "ledger w' = ledger (the_world r)" "extends_quietly (chat (the_world r)) (chat w')"
    using processMessage_effect [of cfg clk m "the_world r"] by blast
  obtain st' where k: "markMessageProcessedInSheet m now (ledger (the_world r)) = (Inr (), st')"
    using mark_total by blast
  from a p k show ?thesis
    by (auto simp add: message_callback_def msg_get_def modify_def in_world_def on_ledger_def
        seq_def try_catch_def ret_def throw_def quiet_refl outcome_def ledger_after_def)
qed

lemma outcomes_append:
  "outcomes cfg now (xs @ ys) st
     = outcomes cfg now xs st @ outcomes cfg now ys (run_ledger cfg now xs st)"
  by (induction xs arbitrary: st) simp_all

lemma run_ledger_append:
  "run_ledger cfg now (xs @ ys) st = run_ledger cfg now ys (run_ledger cfg now xs st)"
  by (induction xs arbitrary: st) simp_all

lemma messages_effect:
  "\<exists>r'. for_each (message_callback cfg clk now) ms r = (Inr (), r')
     \<and> checkedCount r' = checkedCount r + length ms
     \<and> processedCount r'
         = processedCount r + count_list (outcomes cfg now ms (ledger (the_world r))) Processed
     \<and> errorCount r'
         = errorCount r + count_list (outcomes cfg now ms (ledger (the_world r))) Raised
     \<and> ledger (the_world r') = run_ledger cfg now ms (ledger (the_world r))
     \<and> extends_quietly (chat (the_world r)) (chat (the_world r'))"
proof (induction ms arbitrary: r)
  case Nil
  then show ?case by (simp add: ret_def quiet_refl)
next
  case (Cons m ms)
  from callback_effect [of cfg clk now m r] obtain r1 where
    c: "message_callback cfg clk now m r = (Inr (), r1)"
      "checkedCount r1 = checkedCount r + 1"
      "processedCount r1
         = processedCount r + (if outcome cfg m (ledger (the_world r)) = Processed then 1 else 0)"
      "errorCount r1
         = errorCount r + (if outcome cfg m (ledger (the_world r)) = Raised then 1 else 0)"
      "ledger (the_world r1) = ledger_after cfg now m (ledger (the_world r))"
      "extends_quietly (chat (the_world r)) (chat (the_world r1))"
    by blast
  from Cons [of r1] obtain r' where
    ih: "for_each (message_callback cfg clk now) ms r1 = (Inr (), r')"
      "checkedCount r' = checkedCount r1 + length ms"
      "processedCount r'
         = processedCount r1 + count_list (outcomes cfg now ms (ledger (the_world r1))) Processed"
      "errorCount r'
         = errorCount r1 + count_list (outcomes cfg now ms (ledger (the_world r1))) Raised"
      "ledger (the_world r') = run_ledger cfg now ms (ledger (the_world r1))"
      "extends_quietly (chat (the_world r1)) (chat (the_world r'))"
    by blast
  have "for_each (message_callback cfg clk now) (m # ms) r = (Inr (), r')"
    using c(1) ih(1) by (simp add: seq_def)
  moreover have "extends_quietly (chat (the_world r)) (chat (the_world r'))"
    using c(6) ih(6) by (rule quiet_trans)
  ultimately show ?case
    using c(2-5) ih(2-5) by (intro exI [of _ r']) simp
qed

lemma thread_effect:
  "\<exists>r'. thread_callback cfg clk now t r = (Inr (), r')
     \<and> checkedCount r' = checkedCount r + length (reachable_messages [t])
     \<and> processedCount r'
         = processedCount r
           + count_list (outcomes cfg now (reachable_messages [t]) (ledger (the_world r))) Processed
     \<and> errorCount r'
         = errorCount r + length (failed_threads [t])
           + count_list (outcomes cfg now (reachable_messages [t]) (ledger (the_world r))) Raised
     \<and> ledger (the_world r') = run_ledger cfg now (reachable_messages [t]) (ledger (the_world r))
     \<and> extends_quietly (chat (the_world r)) (chat (the_world r'))"
proof (cases "subject_fails t \<or> messages_fail t")
  case True
  then show ?thesis
    by (auto simp add: thread_callback_def failed_threads_def reachable_messages_def seq_def
        try_catch_def throw_def ret_def modify_def quiet_refl)
next
  case False
  let ?r0 = "r\<lparr>threadHasNewMessages := False\<rparr>"
  from messages_effect [of cfg clk now "thread_messages t" ?r0] obtain r' where
    m: "for_each (message_callback cfg clk now) (thread_messages t) ?r0 = (Inr (), r')"
      "checkedCount r' = checkedCount ?r0 + length (thread_messages t)"
      "processedCount r' = processedCount ?r0
         + count_list (outcomes cfg now (thread_messages t) (ledger (the_world ?r0))) Processed"
      "errorCount r' = errorCount ?r0
         + count_list (outcomes cfg now (thread_messages t) (ledger (the_world ?r0))) Raised"
      "ledger (the_world r') = run_ledger cfg now (thread_messages t) (ledger (the_world ?r0))"
      "extends_quietly (chat (the_world ?r0)) (chat (the_world r'))"
    by blast
  from False m(1) have "thread_callback cfg clk now t r = (Inr (), r')"
    by (simp add: thread_callback_def seq_def try_catch_def ret_def modify_def)
  with False m show ?thesis
    by (intro exI [of _ r']) (simp add: failed_threads_def reachable_messages_def)
qed

lemma threads_effect:
  "\<exists>r'. for_each (thread_callback cfg clk now) ts r = (Inr (), r')
     \<and> checkedCount r' = checkedCount r + length (reachable_messages ts)
     \<and> processedCount r'
         = processedCount r
           + count_list (outcomes cfg now (reachable_messages ts) (ledger (the_world r))) Processed
     \<and> errorCount r'
         = errorCount r + length (failed_threads ts)
           + count_list (outcomes cfg now (reachable_messages ts) (ledger (the_world r))) Raised
     \<and> ledger (the_world r') = run_ledger cfg now (reachable_messages ts) (ledger (the_world r))
     \<and> extends_quietly (chat (the_world r)) (chat (the_world r'))"
proof (induction ts arbitrary: r)
  case Nil
  then show ?case
    by (simp add: ret_def quiet_refl failed_threads_def reachable_messages_def)
next
  case (Cons t ts)
  from thread_effect [of cfg clk now t r] obtain r1 where
    c: "thread_callback cfg clk now t r = (Inr (), r1)"
     "checkedCount r1 = checkedCount r + length (reachable_messages [t])"
     "processedCount r1 = processedCount r
        + count_list (outcomes cfg now (reachable_messages [t]) (ledger (the_world r))) Processed"
     "errorCount r1 = errorCount r + length (failed_threads [t])
        + count_list (outcomes cfg now (reachable_messages [t]) (ledger (the_world r))) Raised"
     "ledger (the_world r1) = run_ledger cfg now (reachable_messages [t]) (ledger (the_world r))"
     "extends_quietly (chat (the_world r)) (chat (the_world r1))"
    by blast
  from Cons [of r1] obtain r' where
    ih: "for_each (thread_callback cfg clk now) ts r1 = (Inr (), r')"
     "checkedCount r' = checkedCount r1 + length (reachable_messages ts)"
     "processedCount r' = processedCount r1
        + count_list (outcomes cfg now (reachable_messages ts) (ledger (the_world r1))) Processed"
     "errorCount r' = errorCount r1 + length (failed_threads ts)
        + count_list (outcomes cfg now (reachable_messages ts) (ledger (the_world r1))) Raised"
     "ledger (the_world r') = run_ledger cfg now (reachable_messages ts) (ledger (the_world r1))"
     "extends_quietly (chat (the_world r1)) (chat (the_world r'))"
    by blast
  have split: "reachable_messages (t # ts) = reachable_messages [t] @ reachable_messages ts"
    "failed_threads (t # ts) = failed_threads [t] @ failed_threads ts"
    by (simp_all add: reachable_messages_def failed_threads_def)
  have "for_each (thread_callback cfg clk now) (t # ts) r = (Inr (), r')"
    using c(1) ih(1) by (simp add: seq_def)
  moreover have "extends_quietly (chat (the_world r)) (chat (the_world r'))"
    using c(6) ih(6) by (rule quiet_trans)
  ultimately show ?case
    using c(2-5) ih(2-5)
    by (intro exI [of _ r']) (simp add: split outcomes_append run_ledger_append)
qed


lemma summaries_quiet:
  assumes "extends_quietly (chat w) (chat w')"
  shows "summaries w' = summaries w"
proof -
  from assms obtain new where n: "requests (chat w') = requests (chat w) @ new"
    "list_all (\<lambda>(payload, code). icon_emoji payload \<noteq> '':bar_chart:'') new"
    by (auto simp add: extends_quietly_def)
  from n(2) have "filter (\<lambda>(payload, code). icon_emoji payload = '':bar_chart:'') new = []"
    by (induction new) auto
  with n(1) show ?thesis by (simp add: summaries_def)
qed

lemma summary_sent:
  assumes "answering (chat w)"
  shows "\<exists>w'. on_chat (sendErrorSummary p e) w = (Inr (), w') \<and> summaries w' = summaries w + 1
     \<and> ledger w' = ledger w"
proof -
  from assms obtain code where "respond (chat w) (length (requests (chat w))) = Inr code"
    by (auto simp add: answering_def)
  with assms show ?thesis
    by (auto simp add: on_chat_def sendErrorSummary_def getWebhookUrl_def fetch_def answering_def
        valid_webhook_def seq_def try_catch_def ret_def summaries_def split: option.splits)
qed

lemma validate_ok:
  assumes "answering (chat w)" and "drive_available w"
  shows "validateConfiguration w = (Inr (), w)"
  using assms
  by (auto simp add: validateConfiguration_def on_chat_def getWebhookUrl_def seq_def throw_def
      answering_def valid_webhook_def split: option.splits)

text \<open>
  C9, as amended. \<open>processMessage\<close> never throws: it returns \<open>true\<close> exactly when its
  getters succeed and the subject matches, whatever the attachment processing and the
  Slack notification raise, and \<open>false\<close> when one of its getters throws. In a run with
  a valid configuration, a webhook that answers every request and at least one thread:
  no exception leaves \<open>processEmails\<close>; every message of every thread whose getters
  succeed is checked, whatever the messages before it raised; the processed count is
  the number of messages outside the trash and the ledger whose getters succeed and
  whose subject matches; the errors count is the number of threads whose getters throw
  plus the number of messages whose \<open>isInTrash\<close> throws or that are new and whose
  \<open>getSubject\<close> throws in the log line before \<open>processMessage\<close>; the ledger after
  the run holds the processed messages; the run reports the three counts; and exactly
  one summary notification is sent when the errors are above zero, and none otherwise.
\<close>

theorem run_counts_and_summary:
  assumes "answering (chat w)" and "drive_available w" and "threads \<noteq> []"
  shows "(\<forall>m v. fst (processMessage cfg clk m v)
            = Inr (gettable m \<and> isMatch (checkSubjectPattern cfg (msg_subject m))))
     \<and> (\<exists>rep w'. processEmails cfg clk now (Inr threads) w = (Inr (Some rep), w')
          \<and> reported_checked rep = length (reachable_messages threads)
          \<and> reported_processed rep
              = count_list (outcomes cfg now (reachable_messages threads) (ledger w)) Processed
          \<and> reported_errors rep
              = length (failed_threads threads)
                + count_list (outcomes cfg now (reachable_messages threads) (ledger w)) Raised
          \<and> ledger w' = run_ledger cfg now (reachable_messages threads) (ledger w)
          \<and> summaries w' = summaries w + (if reported_errors rep > 0 then 1 else 0))"
proof -
  let ?r0 = "\<lparr>the_world = w, checkedCount = 0, processedCount = 0, errorCount = 0,
              threadHasNewMessages = False\<rparr>"
  let ?os = "outcomes cfg now (reachable_messages threads) (ledger w)"
  from threads_effect [of cfg clk now threads ?r0] obtain r' where
    t: "for_each (thread_callback cfg clk now) threads ?r0 = (Inr (), r')"
     "checkedCount r' = length (reachable_messages threads)"
     "processedCount r' = count_list ?os Processed"
     "errorCount r' = length (failed_threads threads) + count_list ?os Raised"
     "ledger (the_world r') = run_ledger cfg now (reachable_messages threads) (ledger w)"
     "extends_quietly (chat w) (chat (the_world r'))"
    by auto
  from t(6) have s: "summaries (the_world r') = summaries w"
    by (rule summaries_quiet)
  from t(6) assms(1) have a: "answering (chat (the_world r'))"
    by (simp add: extends_quietly_def answering_def valid_webhook_def)
  let ?rep = "\<lparr>reported_checked = checkedCount r', reported_processed = processedCount r',
               reported_errors = errorCount r'\<rparr>"
  note v = validate_ok [OF assms(1,2)]
  have run: "\<exists>rep w'. processEmails cfg clk now (Inr threads) w = (Inr (Some rep), w')
          \<and> reported_checked rep = length (reachable_messages threads)
          \<and> reported_processed rep = count_list ?os Processed
          \<and> reported_errors rep = length (failed_threads threads) + count_list ?os Raised
          \<and> ledger w' = run_ledger cfg now (reachable_messages threads) (ledger w)
          \<and> summaries w' = summaries w + (if reported_errors rep > 0 then 1 else 0)"
  proof (cases "errorCount r' > 0")
    case True
    from summary_sent [OF a, of "processedCount r'" "errorCount r'"] obtain w' where
      w': "on_chat (sendErrorSummary (processedCount r') (errorCount r')) (the_world r') = (Inr (), w')"
        "summaries w' = summaries (the_world r') + 1" "ledger w' = ledger (the_world r')" by blast
    from True v t(1) w'(1) assms(3)
    have "processEmails cfg clk now (Inr threads) w = (Inr (Some ?rep), w')"
      by (simp add: processEmails_def seq_def try_catch_def ret_def)
    with t(2-5) True w'(2,3) s show ?thesis
      by (intro exI [of _ ?rep] exI [of _ w']) simp
  next
    case False
    from False v t(1) assms(3)
    have "processEmails cfg clk now (Inr threads) w = (Inr (Some ?rep), the_world r')"
      by (simp add: processEmails_def seq_def try_catch_def ret_def)
    with t(2-5) False s show ?thesis
      by (intro exI [of _ ?rep] exI [of _ "the_world r'"]) simp
  qed
  have "fst (processMessage cfg clk m v)
      = Inr (gettable m \<and> isMatch (checkSubjectPattern cfg (msg_subject m)))" for m v
    using processMessage_effect [of cfg clk m v] by auto
  with run show ?thesis by blast
qed

text \<open>
  C9 as stated fails. The body getter of the only message of a run throws: an exception
  is raised in \<open>processMessage\<close> while the message is processed, and the run reports
  one message checked, none processed and no error, and sends no summary.
\<close>

theorem exception_in_processMessage_not_counted:
  "fst (processMessage_try source_config example_clock unreadable_message quiet_world)
     = Inl (Thrown ''GmailMessage'')
   \<and> processEmails source_config example_clock 7
        (Inr [\<lparr>thread_messages = [unreadable_message], subject_fails = False,
                messages_fail = False\<rparr>]) quiet_world
     = (Inr (Some \<lparr>reported_checked = 1, reported_processed = 0, reported_errors = 0\<rparr>),
        quiet_world)
   \<and> summaries quiet_world = 0"
proof -
  have v: "validateConfiguration quiet_world = (Inr (), quiet_world)"
    by (simp add: validateConfiguration_def on_chat_def getWebhookUrl_def seq_def throw_def
        quiet_world_def open_webhook_def startsWith_def js_def)
  have t: "fst (processMessage_try source_config example_clock unreadable_message quiet_world)
     = Inl (Thrown ''GmailMessage'')"
    by (simp add: processMessage_try_def prog_defs unreadable_message_def example_message_def)
  have f: "for_each (thread_callback source_config example_clock 7)
        [\<lparr>thread_messages = [unreadable_message], subject_fails = False,
          messages_fail = False\<rparr>]
        \<lparr>the_world = quiet_world, checkedCount = 0, processedCount = 0, errorCount = 0,
          threadHasNewMessages = False\<rparr>
     = (Inr (), \<lparr>the_world = quiet_world, checkedCount = 1, processedCount = 0,
          errorCount = 0, threadHasNewMessages = False\<rparr>)"
    by (simp add: thread_callback_def
      message_callback_def processMessage_def processMessage_try_def
      isMessageAlreadyProcessed_def isMessageProcessedInSheet_def isMessageProcessedInSheet_try_def
      sheet_defs prog_defs modify_def in_world_def on_ledger_def
      quiet_world_def unreadable_message_def example_message_def empty_store_def
      data_rows_def)
  have "processEmails source_config example_clock 7
        (Inr [\<lparr>thread_messages = [unreadable_message], subject_fails = False,
                messages_fail = False\<rparr>]) quiet_world
     = (Inr (Some \<lparr>reported_checked = 1, reported_processed = 0, reported_errors = 0\<rparr>),
        quiet_world)"
    by (simp add: processEmails_def v f seq_def try_catch_def ret_def del: for_each.simps)
  moreover have "summaries quiet_world = 0"
    by (simp add: summaries_def quiet_world_def open_webhook_def)
  ultimately show ?thesis using t by simp
qed


lemma mark_shape:
  assumes "healthy st" and "recordable m"
  shows "\<exists>k. k \<le> length (data_rows st) \<and> healthy (snd (markMessageProcessedInSheet m now st))
           \<and> data_rows (snd (markMessageProcessedInSheet m now st))
               = drop k (data_rows st @ [ledger_entry m now])"
proof (cases "length (data_rows st) + 2 \<le> MAX_ROWS + CLEANUP_BATCH_SIZE")
  case True
  with assms show ?thesis
    by (intro exI [of _ 0]) (simp add: mark_healthy_small healthy_def data_rows_def)
next
  case False
  then have "MAX_ROWS + CLEANUP_BATCH_SIZE < length (data_rows st) + 2" by simp
  moreover from this have "CLEANUP_BATCH_SIZE \<le> length (data_rows st)"
    by (simp add: MAX_ROWS_def CLEANUP_BATCH_SIZE_def)
  ultimately show ?thesis
    using assms
    by (intro exI [of _ CLEANUP_BATCH_SIZE]) (simp add: mark_healthy_full healthy_def data_rows_def)
qed

lemma already_healthy:
  assumes "healthy st"
  shows "isMessageAlreadyProcessed m st
           = (Inr (\<not> msg_faulty m GetId \<and> msg_id m \<in> row_id ` set (data_rows st)), st)"
  using lookup_healthy [OF assms, of "msg_id m"]
  by (simp add: isMessageAlreadyProcessed_def msg_get_def seq_def try_catch_def ret_def throw_def)

lemma callback_ledger:
  assumes "healthy (ledger (the_world r))"
  shows "ledger (the_world (snd (message_callback cfg clk now m r)))
       = (if recorded_by_run cfg m (ledger (the_world r))
          then snd (markMessageProcessedInSheet m now (ledger (the_world r)))
          else ledger (the_world r))"
proof -
  note a = already_healthy [OF assms, of m]
  obtain w' where p: "processMessage cfg clk m (the_world r)
          = (Inr (gettable m \<and> isMatch (checkSubjectPattern cfg (msg_subject m))), w')"
     "ledger w' = ledger (the_world r)"
    using processMessage_effect [of cfg clk m "the_world r"] by blast
  obtain st' where k: "markMessageProcessedInSheet m now (ledger (the_world r)) = (Inr (), st')"
    using mark_total by blast
  from a p k show ?thesis
    by (auto simp add: recorded_by_run_def gettable_def message_callback_def msg_get_def modify_def
        in_world_def on_ledger_def seq_def try_catch_def ret_def throw_def)
qed

lemma entries_after_mark:
  assumes "healthy st" and "recordable m" and "msg_id m \<notin> row_id ` set (data_rows st)"
    and "distinct (map row_id (data_rows st))"
  shows "healthy (snd (markMessageProcessedInSheet m now st))
       \<and> distinct (map row_id (data_rows (snd (markMessageProcessedInSheet m now st))))
       \<and> entries_of m (snd (markMessageProcessedInSheet m now st)) = [ledger_entry m now]"
proof -
  from mark_shape [OF assms(1,2), of now] obtain k where
    k: "k \<le> length (data_rows st)" "healthy (snd (markMessageProcessedInSheet m now st))"
      "data_rows (snd (markMessageProcessedInSheet m now st))
         = drop k (data_rows st @ [ledger_entry m now])"
    by blast
  from assms(3,4) have "distinct (map row_id (data_rows st @ [ledger_entry m now]))"
    by (auto simp add: ledger_entry_def)
  then have d: "distinct (map row_id (drop k (data_rows st @ [ledger_entry m now])))"
    by (simp only: drop_map [symmetric] distinct_drop)
  have "row_id x \<noteq> msg_id m" if "x \<in> set (drop k (data_rows st))" for x
  proof -
    from that have "x \<in> set (data_rows st)" by (rule in_set_dropD)
    then have "row_id x \<in> row_id ` set (data_rows st)" by (rule imageI)
    with assms(3) show ?thesis by metis
  qed
  then have "filter (\<lambda>r. row_id r = msg_id m) (drop k (data_rows st)) = []"
    by (simp add: filter_empty_conv)
  with k(1) have "filter (\<lambda>r. row_id r = msg_id m) (drop k (data_rows st @ [ledger_entry m now]))
      = [ledger_entry m now]"
    by (simp add: ledger_entry_def)
  with k d show ?thesis by (simp add: entries_of_def)
qed


lemma one_entry:
  "distinct (map row_id rows) \<Longrightarrow> i \<in> row_id ` set rows
     \<Longrightarrow> length (filter (\<lambda>r. row_id r = i) rows) = 1"
proof (induction rows)
  case Nil
  then show ?case by simp
next
  case (Cons a rows)
  show ?case
  proof (cases "row_id a = i")
    case True
    from Cons.prems(1) True have "i \<notin> row_id ` set rows" by simp
    then have "row_id x \<noteq> i" if "x \<in> set rows" for x
      using that by (metis imageI)
    then have "filter (\<lambda>r. row_id r = i) rows = []"
      by (simp add: filter_empty_conv)
    with True show ?thesis by simp
  next
    case False
    with Cons show ?thesis by auto
  qed
qed

lemma mark_never_empty:
  assumes "healthy st" and "recordable m"
  shows "entries_of m (snd (markMessageProcessedInSheet m now st)) \<noteq> []"
proof -
  from mark_shape [OF assms, of now] obtain k where
    k: "k \<le> length (data_rows st)"
      "data_rows (snd (markMessageProcessedInSheet m now st))
         = drop k (data_rows st @ [ledger_entry m now])"
    by blast
  then have "ledger_entry m now \<in> set (data_rows (snd (markMessageProcessedInSheet m now st)))"
    by simp
  moreover have "row_id (ledger_entry m now) = msg_id m"
    by (simp add: ledger_entry_def)
  ultimately show ?thesis
    by (auto simp add: entries_of_def filter_empty_conv)
qed

text \<open>
  C1, as amended. \<open>markMessageProcessedInSheet\<close> makes no existence check: on a store
  whose calls succeed it appends its row on every call, so the recorded id is never
  left with zero rows. The check is made by the run: on a ledger whose calls succeed
  and whose ids are pairwise different, handling a message keeps the ids pairwise
  different, handling the same message a second time right after leaves the ledger as
  it is, and a readable message outside the trash whose subject matches has exactly one
  row after the two passes.
\<close>

theorem recorded_once_by_the_run:
  assumes h: "healthy (ledger (the_world r))"
    and d: "distinct (map row_id (data_rows (ledger (the_world r))))"
  shows "distinct (map row_id (data_rows (ledger (the_world
            (snd (message_callback cfg clk now m r))))))
     \<and> ledger (the_world (snd (message_callback cfg clk now' m
            (snd (message_callback cfg clk now m r)))))
       = ledger (the_world (snd (message_callback cfg clk now m r)))
     \<and> (readable m \<and> \<not> msg_inTrash m \<and> isMatch (checkSubjectPattern cfg (msg_subject m))
          \<longrightarrow> length (entries_of m (ledger (the_world (snd (message_callback cfg clk now' m
                 (snd (message_callback cfg clk now m r))))))) = 1)
     \<and> (recordable m
          \<longrightarrow> entries_of m (snd (markMessageProcessedInSheet m now (ledger (the_world r)))) \<noteq> [])"
proof -
  note never_empty = mark_never_empty [OF h, of m now]
  let ?L = "ledger (the_world r)"
  let ?r1 = "snd (message_callback cfg clk now m r)"
  let ?L1 = "ledger (the_world ?r1)"
  let ?r2 = "snd (message_callback cfg clk now' m ?r1)"
  note l1 = callback_ledger [OF h, of cfg clk now m]
  show ?thesis
  proof (cases "recorded_by_run cfg m ?L")
    case True
    then have rec: "recordable m" and new: "msg_id m \<notin> row_id ` set (data_rows ?L)"
      by (simp_all add: recorded_by_run_def gettable_def recordable_def)
    from entries_after_mark [OF h rec new d, of now] l1 True
    have a: "healthy ?L1" "distinct (map row_id (data_rows ?L1))"
      "entries_of m ?L1 = [ledger_entry m now]"
      by simp_all
    from a(3) have "msg_id m \<in> row_id ` set (data_rows ?L1)"
      by (auto simp add: entries_of_def filter_eq_Cons_iff)
    then have "\<not> recorded_by_run cfg m ?L1"
      by (simp add: recorded_by_run_def)
    with callback_ledger [OF a(1), of cfg clk now' m] have "ledger (the_world ?r2) = ?L1"
      by simp
    with a never_empty show ?thesis by simp
  next
    case False
    with l1 have same: "?L1 = ?L" by simp
    with h have h1: "healthy ?L1" by simp
    from False same have "\<not> recorded_by_run cfg m ?L1" by simp
    with callback_ledger [OF h1, of cfg clk now' m] have l2: "ledger (the_world ?r2) = ?L1"
      by simp
    have "length (entries_of m ?L) = 1"
      if "readable m" "\<not> msg_inTrash m" "isMatch (checkSubjectPattern cfg (msg_subject m))"
    proof -
      from that False have "msg_id m \<in> row_id ` set (data_rows ?L)"
        by (auto simp add: recorded_by_run_def gettable_def readable_def)
      with d show ?thesis
        unfolding entries_of_def by (rule one_entry)
    qed
    with l2 same d never_empty show ?thesis by simp
  qed
qed

text \<open>
  C1 as stated fails. Two record calls in sequence for the same message on the empty
  sheet, with every call succeeding, commit two rows with its id.
\<close>

theorem record_twice_duplicates:
  "entries_of example_message (record_calls [example_message, example_message] 7 empty_store)
     = [ledger_entry example_message 7, ledger_entry example_message 7]
   \<and> \<not> length (entries_of example_message
           (record_calls [example_message, example_message] 7 empty_store)) \<le> 1"
proof -
  have h: "healthy empty_store"
    by (simp add: healthy_def empty_store_def)
  have r: "recordable example_message"
    by (simp add: recordable_def example_message_def)
  have s1: "length (data_rows empty_store) + 2 \<le> MAX_ROWS + CLEANUP_BATCH_SIZE"
    by (simp add: empty_store_def data_rows_def MAX_ROWS_def)
  note m1 = mark_healthy_small [OF h r s1, of 7]
  let ?st1 = "snd (markMessageProcessedInSheet example_message 7 empty_store)"
  from m1 h have h1: "healthy ?st1"
    by (simp add: healthy_def)
  from m1 have s2: "length (data_rows ?st1) + 2 \<le> MAX_ROWS + CLEANUP_BATCH_SIZE"
    by (simp add: empty_store_def data_rows_def MAX_ROWS_def)
  note m2 = mark_healthy_small [OF h1 r s2, of 7]
  from m1 m2 show ?thesis
    by (simp add: entries_of_def data_rows_def empty_store_def ledger_entry_def)
qed

subsection \<open>The run on the example data\<close>

lemma example_subject_matches:
  "isMatch (checkSubjectPattern source_config (msg_subject example_message))"
proof -
  have m: "or_default (MATCH_MODE (example_patterns (js ''any''))) (js ''any'') = js ''any''"
    by (simp add: example_patterns_def or_default_def)
  have e: "ENABLE_MULTIPLE_PATTERNS (example_patterns (js ''any''))"
    by (simp add: example_patterns_def)
  from any_loop [of "[]" "js ''Meeting notice''" "Suc (Suc (Suc (Suc 0)))"
      "[word_pattern ''memo'', string_entry ''notice'', word_pattern ''notice'',
        word_pattern ''Meeting'']" "[]"]
  obtain r where "check_loop (js ''Meeting notice'') (js ''any'') (Suc (Suc (Suc (Suc 0))))
      (map Some [word_pattern ''memo'', string_entry ''notice'', word_pattern ''notice'',
        word_pattern ''Meeting'']) [] [] = Inr r" "isMatch r"
    by (auto simp add: example_matches)
  then have "checkMultiplePatterns (example_patterns (js ''any'')) (js ''Meeting notice'') = Inr r"
    using m by (simp add: checkMultiplePatterns_def example_patterns_def del: check_loop.simps)
  with e \<open>isMatch r\<close> show ?thesis
    by (simp add: checkSubjectPattern_def checkSubjectPattern_try_def source_config_def
        example_message_def)
qed

theorem recorded_once_by_the_run_witness:
  "healthy (ledger (the_world fresh_run))
   \<and> distinct (map row_id (data_rows (ledger (the_world fresh_run))))
   \<and> readable example_message \<and> recordable example_message
   \<and> ledger (the_world (snd (message_callback source_config example_clock 8 example_message
          (snd (message_callback source_config example_clock 7 example_message fresh_run)))))
     = ledger (the_world (snd (message_callback source_config example_clock 7 example_message
          fresh_run)))
   \<and> length (entries_of example_message (ledger (the_world
        (snd (message_callback source_config example_clock 8 example_message
          (snd (message_callback source_config example_clock 7 example_message fresh_run)))))))
     = 1
   \<and> entries_of example_message
        (snd (markMessageProcessedInSheet example_message 7 (ledger (the_world fresh_run))))
     \<noteq> []"
proof -
  have h: "healthy (ledger (the_world fresh_run))"
    by (simp add: fresh_run_def quiet_world_def empty_store_def healthy_def)
  have d: "distinct (map row_id (data_rows (ledger (the_world fresh_run))))"
    by (simp add: fresh_run_def quiet_world_def empty_store_def data_rows_def)
  have m: "readable example_message" "recordable example_message"
    "\<not> msg_inTrash example_message"
    by (simp_all add: readable_def recordable_def example_message_def)
  from recorded_once_by_the_run [OF h d, of source_config example_clock 7 example_message 8]
    h d m example_subject_matches
  show ?thesis by blast
qed

theorem run_counts_and_summary_witness:
  "answering (chat quiet_world) \<and> drive_available quiet_world
   \<and> fst (processMessage source_config example_clock unreadable_message quiet_world) = Inr False
   \<and> fst (processMessage source_config example_clock example_message
             (quiet_world\<lparr>drive_available := False,
                chat := open_webhook\<lparr>respond := (\<lambda>n. Inr 500)\<rparr>\<rparr>)) = Inr True
   \<and> (\<exists>w'. processEmails source_config example_clock 7 (Inr [broken_thread, example_thread])
               quiet_world
          = (Inr (Some \<lparr>reported_checked = 5, reported_processed = 1, reported_errors = 3\<rparr>),
             w')
        \<and> data_rows (ledger w') = [ledger_entry example_message 7]
        \<and> summaries w' = 1)"
proof -
  have a: "answering (chat quiet_world)"
    by (simp add: answering_def valid_webhook_def startsWith_def quiet_world_def open_webhook_def
        js_def)
  have v: "drive_available quiet_world"
    by (simp add: quiet_world_def)
  have n: "[broken_thread, example_thread] \<noteq> []"
    by simp
  have r: "reachable_messages [broken_thread, example_thread]
      = [untrashable_message, unreadable_message, untitled_message, example_message,
         example_message]"
    "failed_threads [broken_thread, example_thread] = [broken_thread]"
    by (simp_all add: reachable_messages_def failed_threads_def example_thread_def
        broken_thread_def)
  have l: "ledger quiet_world = empty_store"
    by (simp add: quiet_world_def)
  have s: "summaries quiet_world = 0"
    by (simp add: summaries_def quiet_world_def open_webhook_def)
  have h: "healthy empty_store"
    by (simp add: healthy_def empty_store_def)
  have g: "gettable example_message" "\<not> gettable unreadable_message"
    by (simp_all add: gettable_def example_message_def unreadable_message_def)
  have k: "markMessageProcessedInSheet example_message 7 empty_store
      = (Inr (), empty_store\<lparr>sheet := Some [ledger_entry example_message 7],
                  mutations := [Appended (ledger_entry example_message 7)]\<rparr>)"
    using mark_healthy_small [OF h, of example_message 7]
    by (simp add: recordable_def example_message_def empty_store_def data_rows_def MAX_ROWS_def)
  let ?st1 = "empty_store\<lparr>sheet := Some [ledger_entry example_message 7],
                  mutations := [Appended (ledger_entry example_message 7)]\<rparr>"
  have h1: "healthy ?st1"
    using h by (simp add: healthy_def)
  have d0: "data_rows empty_store = []"
    by (simp add: empty_store_def data_rows_def)
  have d1: "data_rows ?st1 = [ledger_entry example_message 7]"
    by (simp add: data_rows_def)
  have i: "msg_id unreadable_message = msg_id example_message"
    "msg_id untitled_message = msg_id example_message"
    "row_id (ledger_entry example_message 7) = msg_id example_message"
    by (simp_all add: unreadable_message_def untitled_message_def ledger_entry_def)
  have q: "\<not> msg_faulty unreadable_message IsInTrash" "\<not> msg_inTrash unreadable_message"
    "\<not> msg_faulty unreadable_message GetSubject"
    "\<not> msg_faulty untitled_message IsInTrash" "\<not> msg_inTrash untitled_message"
    "msg_faulty untitled_message GetSubject"
    "\<not> msg_faulty example_message IsInTrash" "\<not> msg_inTrash example_message"
    "\<not> msg_faulty example_message GetSubject" "\<not> msg_faulty example_message GetId"
    by (simp_all add: unreadable_message_def untitled_message_def example_message_def)
  have o1: "outcome source_config untrashable_message empty_store = Raised"
    by (simp add: outcome_def untrashable_message_def)
  have o2: "outcome source_config unreadable_message empty_store = Swallowed"
    using g(2) q by (simp add: outcome_def already_healthy [OF h] d0)
  have o3: "outcome source_config untitled_message empty_store = Raised"
    using q by (simp add: outcome_def already_healthy [OF h] d0)
  have o4: "outcome source_config example_message empty_store = Processed"
    using example_subject_matches g(1) q by (simp add: outcome_def already_healthy [OF h] d0)
  have o5: "outcome source_config example_message ?st1 = Skipped"
    using q by (simp add: outcome_def already_healthy [OF h1] d1 i)
  have os: "outcomes source_config 7
      [untrashable_message, unreadable_message, untitled_message, example_message,
       example_message] empty_store = [Raised, Swallowed, Raised, Processed, Skipped]"
    "run_ledger source_config 7
      [untrashable_message, unreadable_message, untitled_message, example_message,
       example_message] empty_store = ?st1"
    by (simp_all add: ledger_after_def o1 o2 o3 o4 o5 k)
  note inst = run_counts_and_summary [OF a v n, of source_config example_clock 7]
  from inst [unfolded r l os]
  have "\<exists>rep w'. processEmails source_config example_clock 7
        (Inr [broken_thread, example_thread]) quiet_world = (Inr (Some rep), w')
      \<and> reported_checked rep = 5 \<and> reported_processed rep = 1 \<and> reported_errors rep = 3
      \<and> ledger w' = ?st1 \<and> summaries w' = 1"
    by (auto simp add: s eval_nat_numeral)
  then obtain rep w' where
    run: "processEmails source_config example_clock 7 (Inr [broken_thread, example_thread])
        quiet_world = (Inr (Some rep), w')"
    "reported_checked rep = 5" "reported_processed rep = 1" "reported_errors rep = 3"
    "ledger w' = ?st1" "summaries w' = 1"
    by blast
  from run(2-4) have "rep = \<lparr>reported_checked = 5, reported_processed = 1, reported_errors = 3\<rparr>"
    by (cases rep) simp
  with run have e: "\<exists>w'. processEmails source_config example_clock 7
        (Inr [broken_thread, example_thread]) quiet_world
          = (Inr (Some \<lparr>reported_checked = 5, reported_processed = 1, reported_errors = 3\<rparr>),
             w')
        \<and> data_rows (ledger w') = [ledger_entry example_message 7]
        \<and> summaries w' = 1"
    by (auto simp add: data_rows_def)
  from inst have p1: "fst (processMessage source_config example_clock unreadable_message
      quiet_world) = Inr False"
    using g(2) by simp
  from inst have p2: "fst (processMessage source_config example_clock example_message
             (quiet_world\<lparr>drive_available := False,
                chat := open_webhook\<lparr>respond := (\<lambda>n. Inr 500)\<rparr>\<rparr>)) = Inr True"
    using g(1) example_subject_matches by (simp add: example_message_def)
  from a v p1 p2 e show ?thesis by blast
qed

end
